theory Spec2Isabelle
  imports Complex_Main "HOL-Library.Sublist"
begin

section \<open>Python strings\<close>

text \<open>
  A Python \<^verbatim>\<open>str\<close> is a sequence of Unicode code points, and \<^verbatim>\<open>len\<close> counts code
  points. The model keeps that: a string is a list of code points (natural numbers), so
  that text outside ASCII (the separator U+00B7 of the source, Indonesian or any other
  script on the page) is one element per character. \<open>py\<close> reads an ASCII literal.
\<close>

type_synonym pystr = "nat list"

definition py :: "string \<Rightarrow> pystr" where
  "py s = map of_char s"

text \<open>
  \<^verbatim>\<open>str.strip()\<close>, \<^verbatim>\<open>str.split()\<close> and the class \<^verbatim>\<open>\s\<close> of \<^verbatim>\<open>re\<close> share the
  interpreter's whitespace test: the code points 9-13, 28-32, U+0085, U+00A0, U+1680,
  U+2000-U+200A, U+2028, U+2029, U+202F, U+205F and U+3000.
\<close>

definition isspace :: "nat \<Rightarrow> bool" where
  "isspace c \<longleftrightarrow>
     (9 \<le> c \<and> c \<le> 13) \<or> (28 \<le> c \<and> c \<le> 32) \<or> c = 133 \<or> c = 160 \<or> c = 5760 \<or>
     (8192 \<le> c \<and> c \<le> 8202) \<or> c = 8232 \<or> c = 8233 \<or> c = 8239 \<or> c = 8287 \<or> c = 12288"

definition strip :: "pystr \<Rightarrow> pystr" where
  "strip s = rev (dropWhile isspace (rev (dropWhile isspace s)))"

text \<open>
  \<^verbatim>\<open>s.split()\<close>: the maximal runs of non-whitespace, in order. \<open>w\<close> is the word being
  read.
\<close>

fun split_from :: "pystr \<Rightarrow> pystr \<Rightarrow> pystr list" where
  "split_from w [] = (if w = [] then [] else [w])"
| "split_from w (c # cs) =
     (if isspace c then (if w = [] then split_from [] cs else w # split_from [] cs)
      else split_from (w @ [c]) cs)"

definition split :: "pystr \<Rightarrow> pystr list" where
  "split s = split_from [] s"

text \<open>\<^verbatim>\<open>sep.join(words)\<close>.\<close>

fun join :: "pystr \<Rightarrow> pystr list \<Rightarrow> pystr" where
  "join sep [] = []"
| "join sep [w] = w"
| "join sep (w # v # ws) = w @ sep @ join sep (v # ws)"

text \<open>
  \<^verbatim>\<open>s.replace(old, '')\<close>, as the crawler calls it: every occurrence of \<open>old\<close>, found
  from the left and not overlapping, is deleted. For the empty \<open>old\<close> Python inserts the
  replacement between all characters; inserting the empty string leaves \<open>s\<close> as it is.
\<close>

fun delete_all :: "pystr \<Rightarrow> pystr \<Rightarrow> pystr" where
  "delete_all old [] = []"
| "delete_all old (c # cs) =
     (if old \<noteq> [] \<and> prefix old (c # cs)
      then delete_all old (drop (length old - 1) cs)
      else c # delete_all old cs)"

section \<open>The URL patterns of the comment cleaner\<close>

text \<open>
  \<^verbatim>\<open>_extract_single_comment\<close> deletes the matches of two patterns:
  \<^verbatim>\<open>http[s]?://(?:[a-zA-Z]|[0-9]|[$-_@.&+]|[!*\\(\\),]|(?:%[0-9a-fA-F][0-9a-fA-F]))+\<close>
  and the same with \<^verbatim>\<open>www\.\<close> in front. Both are a literal head followed by one or more
  passes through the same group of five alternatives. The four character classes are:
  letters; digits; the range from \<^verbatim>\<open>$\<close> (36) to \<^verbatim>\<open>_\<close> (95) with \<^verbatim>\<open>@ . & +\<close>; and
  \<^verbatim>\<open>! * \ ( ) ,\<close>. The fifth alternative is a percent sign and two hexadecimal digits.
\<close>

definition url_alpha :: "nat \<Rightarrow> bool" where
  "url_alpha c \<longleftrightarrow> (97 \<le> c \<and> c \<le> 122) \<or> (65 \<le> c \<and> c \<le> 90)"

definition url_digit :: "nat \<Rightarrow> bool" where
  "url_digit c \<longleftrightarrow> 48 \<le> c \<and> c \<le> 57"

definition url_punct :: "nat \<Rightarrow> bool" where
  "url_punct c \<longleftrightarrow> (36 \<le> c \<and> c \<le> 95) \<or> c = 64 \<or> c = 46 \<or> c = 38 \<or> c = 43"

definition url_paren :: "nat \<Rightarrow> bool" where
  "url_paren c \<longleftrightarrow> c = 33 \<or> c = 42 \<or> c = 92 \<or> c = 40 \<or> c = 92 \<or> c = 41 \<or> c = 44"

definition hexdigit :: "nat \<Rightarrow> bool" where
  "hexdigit c \<longleftrightarrow> (48 \<le> c \<and> c \<le> 57) \<or> (97 \<le> c \<and> c \<le> 102) \<or> (65 \<le> c \<and> c \<le> 70)"

text \<open>
  One pass through the group: the alternatives are tried in the order of the pattern, and
  the result is what is left of the string after the first one that matches.
\<close>

fun url_unit :: "pystr \<Rightarrow> pystr option" where
  "url_unit [] = None"
| "url_unit (c # cs) =
     (if url_alpha c then Some cs
      else if url_digit c then Some cs
      else if url_punct c then Some cs
      else if url_paren c then Some cs
      else if c = 37 then
        (case cs of
           a # b # r \<Rightarrow> if hexdigit a \<and> hexdigit b then Some r else None
         | _ \<Rightarrow> None)
      else None)"

text \<open>
  The greedy repetition. Nothing follows the group in either pattern, so the matcher never
  has to give a pass back: it repeats the group until no alternative matches.
\<close>

function url_many :: "pystr \<Rightarrow> pystr" where
  "url_many s = (case url_unit s of None \<Rightarrow> s | Some r \<Rightarrow> url_many r)"
  by pat_completeness auto
termination
  by (relation "measure length") (auto split: if_splits list.splits elim!: url_unit.elims)

declare url_many.simps [simp del]

definition url_plus :: "pystr \<Rightarrow> pystr option" where
  "url_plus s = (case url_unit s of None \<Rightarrow> None | Some r \<Rightarrow> Some (url_many r))"

text \<open>
  A match at the front of \<open>s\<close>: the literal heads are tried in order, and a head whose
  group does not match once is given up for the next head. The result is the rest of \<open>s\<close>
  after the match. \<^verbatim>\<open>http[s]?://\<close> takes the \<^verbatim>\<open>s\<close> first (the \<^verbatim>\<open>?\<close> is greedy) and
  falls back to no \<^verbatim>\<open>s\<close>: the heads \<^verbatim>\<open>https://\<close>, then \<^verbatim>\<open>http://\<close>.
\<close>

fun url_match :: "pystr list \<Rightarrow> pystr \<Rightarrow> pystr option" where
  "url_match [] s = None"
| "url_match (l # ls) s =
     (case (if prefix l s then url_plus (drop (length l) s) else None) of
        Some r \<Rightarrow> Some r
      | None \<Rightarrow> url_match ls s)"

definition http_heads :: "pystr list" where
  "http_heads = [py ''https://'', py ''http://'']"

definition www_heads :: "pystr list" where
  "www_heads = [py ''www.'']"

text \<open>
  \<^verbatim>\<open>re.sub(pattern, '', s)\<close>: the string is read from the left; where the pattern matches,
  the match is dropped and reading goes on behind it, elsewhere the character is kept.
  \<open>sub_skip\<close> carries the number of characters of a running match that are still to drop.
\<close>

fun sub_skip :: "pystr list \<Rightarrow> nat \<Rightarrow> pystr \<Rightarrow> pystr" where
  "sub_skip hs n [] = []"
| "sub_skip hs (Suc n) (c # cs) = sub_skip hs n cs"
| "sub_skip hs 0 (c # cs) =
     (case url_match hs (c # cs) of
        Some r \<Rightarrow> sub_skip hs (length cs - length r) cs
      | None \<Rightarrow> c # sub_skip hs 0 cs)"

definition re_sub_url :: "pystr list \<Rightarrow> pystr \<Rightarrow> pystr" where
  "re_sub_url hs s = sub_skip hs 0 s"

text \<open>\<^verbatim>\<open>re.search(pattern, s)\<close> as a truth value: the pattern matches at some position.\<close>

fun re_search_url :: "pystr list \<Rightarrow> pystr \<Rightarrow> bool" where
  "re_search_url hs [] = False"
| "re_search_url hs (c # cs) = (url_match hs (c # cs) \<noteq> None \<or> re_search_url hs cs)"

text \<open>
  The cleaning step of \<^verbatim>\<open>_extract_single_comment\<close> (crawler.py, lines 442-447): a
  non-empty text loses its URLs, then its whitespace is normalised.
\<close>

definition clean_comment_text :: "pystr \<Rightarrow> pystr" where
  "clean_comment_text comment_text =
     (if comment_text \<noteq> [] then
        strip (join (py '' '') (split (re_sub_url www_heads (re_sub_url http_heads comment_text))))
      else comment_text)"

section \<open>The browser and the interpreter\<close>

text \<open>
  The crawler drives a Playwright page. The model sees the page as a state \<open>'s\<close> and an
  element handle as a value of \<open>'h\<close>; what the browser answers is a parameter, the record
  \<open>env\<close>. A query reads the state; navigation, waiting, clicking, scrolling and sleeping
  return a new one. Every call into Playwright can raise, and the crawler's many
  \<^verbatim>\<open>try\<close> blocks are written for that, so every such call has an exception among its
  results. An action that raises still returns a state: the handler that catches the
  exception goes on in whatever state the failed action left.

  \<open>exn\<close> stands for the exceptions below \<^verbatim>\<open>Exception\<close>, which \<^verbatim>\<open>except Exception\<close> and
  a bare \<^verbatim>\<open>except\<close> both catch. \<^verbatim>\<open>text_content()\<close> returning \<^verbatim>\<open>None\<close> makes the
  \<^verbatim>\<open>.strip()\<close> that follows raise \<^verbatim>\<open>AttributeError\<close>; the model has that case as a
  raising \<open>text_content\<close>. \<^verbatim>\<open>ValueError\<close> is what \<^verbatim>\<open>time.sleep\<close> raises for a negative
  duration. A keyboard interrupt is not an \<^verbatim>\<open>Exception\<close> and is not modelled. Log output
  is left out.

  \<open>random_random\<close> and \<open>random_below\<close> are the random source: what they draw is brought
  into the range of \<^verbatim>\<open>random.random()\<close> and \<^verbatim>\<open>random.randint\<close> below. \<open>time_sleep\<close> is
  what the page does while the crawler sleeps. The last three fields are tables of the
  interpreter: the decimal value of a code point (what \<^verbatim>\<open>\d\<close> tests and \<^verbatim>\<open>int\<close>
  reads), whether a character of the text matches a letter of a pattern under
  \<^verbatim>\<open>re.IGNORECASE\<close>, and \<^verbatim>\<open>str.lower\<close>.
\<close>

datatype exn = PlaywrightError | PlaywrightTimeout | AttributeError | ValueError

record ('s, 'h) env =
  page_goto :: "pystr \<Rightarrow> int \<Rightarrow> 's \<Rightarrow> exn option \<times> 's"
  page_url :: "'s \<Rightarrow> pystr"
  page_query_selector :: "string \<Rightarrow> 's \<Rightarrow> exn + 'h option"
  page_query_selector_all :: "string \<Rightarrow> 's \<Rightarrow> exn + 'h list"
  page_wait_for_selector :: "string \<Rightarrow> int \<Rightarrow> 's \<Rightarrow> (exn + 'h option) \<times> 's"
  page_evaluate :: "int \<Rightarrow> string option \<Rightarrow> 's \<Rightarrow> exn option \<times> 's"
  query_selector :: "'h \<Rightarrow> string \<Rightarrow> 's \<Rightarrow> exn + 'h option"
  query_selector_all :: "'h \<Rightarrow> string \<Rightarrow> 's \<Rightarrow> exn + 'h list"
  text_content :: "'h \<Rightarrow> 's \<Rightarrow> exn + pystr"
  get_attribute :: "'h \<Rightarrow> string \<Rightarrow> 's \<Rightarrow> exn + pystr option"
  is_visible :: "'h \<Rightarrow> 's \<Rightarrow> exn + bool"
  click :: "'h \<Rightarrow> 's \<Rightarrow> exn option \<times> 's"
  scroll_into_view_if_needed :: "'h \<Rightarrow> 's \<Rightarrow> exn option \<times> 's"
  time_sleep :: "real \<Rightarrow> 's \<Rightarrow> 's"
  random_random :: "'s \<Rightarrow> real \<times> 's"
  random_below :: "nat \<Rightarrow> 's \<Rightarrow> nat \<times> 's"
  now_isoformat :: "'s \<Rightarrow> pystr"
  decimal :: "nat \<Rightarrow> nat option"
  ignorecase_eq :: "nat \<Rightarrow> nat \<Rightarrow> bool"
  str_lower :: "pystr \<Rightarrow> pystr"

text \<open>
  \<open>page_evaluate\<close> runs the one script the crawler has, the scroll script of
  \<^verbatim>\<open>human_like_scroll\<close>, with its argument \<^verbatim>\<open>{amount, selector}\<close>.
\<close>

text \<open>The settings of \<^verbatim>\<open>Config\<close> (config.py) that the crawler reads.\<close>

record config =
  MIN_DELAY :: int
  MAX_DELAY :: int
  SCROLL_PAUSE_TIME :: int
  MAX_SCROLL_ATTEMPTS :: int
  REQUEST_TIMEOUT :: int

section \<open>utils.py\<close>

text \<open>
  The library calls of utils.py. \<^verbatim>\<open>random.random()\<close> lies in \<open>[0, 1)\<close>;
  \<^verbatim>\<open>random.uniform(a, b)\<close> is \<^verbatim>\<open>a + (b - a) * random()\<close>; \<^verbatim>\<open>random.randint(a, b)\<close> lies in
  \<open>[a, b]\<close>; \<^verbatim>\<open>time.sleep\<close> raises \<^verbatim>\<open>ValueError\<close> for a negative duration.
\<close>

definition py_random :: "('s, 'h) env \<Rightarrow> 's \<Rightarrow> real \<times> 's" where
  "py_random env s =
     (case random_random env s of (x, s1) \<Rightarrow> (if 0 \<le> x \<and> x < 1 then x else 0, s1))"

definition uniform :: "('s, 'h) env \<Rightarrow> real \<Rightarrow> real \<Rightarrow> 's \<Rightarrow> real \<times> 's" where
  "uniform env a b s = (case py_random env s of (x, s1) \<Rightarrow> (a + (b - a) * x, s1))"

definition randint :: "('s, 'h) env \<Rightarrow> int \<Rightarrow> int \<Rightarrow> 's \<Rightarrow> int \<times> 's" where
  "randint env a b s =
     (case random_below env (nat (b - a + 1)) s of
        (n, s1) \<Rightarrow> (a + int (n mod nat (b - a + 1)), s1))"

definition sleep :: "('s, 'h) env \<Rightarrow> real \<Rightarrow> 's \<Rightarrow> exn option \<times> 's" where
  "sleep env seconds s =
     (if seconds < 0 then (Some ValueError, s) else (None, time_sleep env seconds s))"

text \<open>
  \<^verbatim>\<open>random_delay(min_seconds, max_seconds)\<close>: an argument that is \<^verbatim>\<open>None\<close> or zero gives
  way to the configured bound (\<^verbatim>\<open>min_seconds or Config.MIN_DELAY\<close>).
\<close>

definition random_delay ::
  "('s, 'h) env \<Rightarrow> config \<Rightarrow> real option \<Rightarrow> real option \<Rightarrow> 's \<Rightarrow> exn option \<times> 's" where
  "random_delay env cfg min_seconds max_seconds s =
     (let min_delay = (case min_seconds of
                         None \<Rightarrow> real_of_int (MIN_DELAY cfg)
                       | Some v \<Rightarrow> if v = 0 then real_of_int (MIN_DELAY cfg) else v);
          max_delay = (case max_seconds of
                         None \<Rightarrow> real_of_int (MAX_DELAY cfg)
                       | Some v \<Rightarrow> if v = 0 then real_of_int (MAX_DELAY cfg) else v)
      in case uniform env min_delay max_delay s of (delay, s1) \<Rightarrow> sleep env delay s1)"

text \<open>
  \<^verbatim>\<open>human_like_scroll(page, scroll_amount)\<close>, called without \<^verbatim>\<open>pause_time\<close> and
  \<^verbatim>\<open>selector\<close>: the scroll is split into \<^verbatim>\<open>random.randint(3, 5)\<close> increments, each one
  call of the script and a sleep of \<^verbatim>\<open>pause / increments + random.uniform(0, 0.1)\<close>,
  where \<^verbatim>\<open>pause\<close> is half of \<^verbatim>\<open>Config.SCROLL_PAUSE_TIME\<close>. \<open>scroll_increments\<close> is the
  \<^verbatim>\<open>for\<close> loop with \<open>n\<close> rounds to go; an exception of the script or of the sleep ends
  it.
\<close>

fun scroll_increments ::
  "('s, 'h) env \<Rightarrow> nat \<Rightarrow> int \<Rightarrow> real \<Rightarrow> 's \<Rightarrow> exn option \<times> 's" where
  "scroll_increments env 0 amount pause s = (None, s)"
| "scroll_increments env (Suc n) amount pause s =
     (case page_evaluate env amount None s of
        (Some e, s1) \<Rightarrow> (Some e, s1)
      | (None, s1) \<Rightarrow>
          (case uniform env 0 (1 / 10) s1 of
             (jitter, s2) \<Rightarrow>
               (case sleep env (pause + jitter) s2 of
                  (Some e, s3) \<Rightarrow> (Some e, s3)
                | (None, s3) \<Rightarrow> scroll_increments env n amount pause s3)))"

definition human_like_scroll ::
  "('s, 'h) env \<Rightarrow> config \<Rightarrow> int \<Rightarrow> 's \<Rightarrow> exn option \<times> 's" where
  "human_like_scroll env cfg scroll_amount s =
     (let pause = real_of_int (SCROLL_PAUSE_TIME cfg) / 2 in
      case randint env 3 5 s of
        (increments, s1) \<Rightarrow>
          scroll_increments env (nat increments) (scroll_amount div increments)
            (pause / real_of_int increments) s1)"

section \<open>crawler.py: opening and expanding the comment section\<close>

definition backslash :: string where
  "backslash = [CHR 0x5C]"

text \<open>
  \<^verbatim>\<open>_open_comment_section\<close>: the first selector whose button appears within 3000 ms and
  is visible is clicked. Any exception inside one round, also one of the click itself or
  of the delay after it, moves on to the next selector.
\<close>

definition comment_button_selectors :: "string list" where
  \<open>comment_button_selectors =
     [''text=/View.*comment/i'',
      ''text=/Lihat.*komentar/i'',
      ''[aria-label*="comment"]'',
      ''[aria-label*="Comment"]'',
      ''[aria-label*="Komentar"]'',
      ''div[role="button"]:has-text("Comment")'',
      ''div[role="button"]:has-text("Komentar")'']\<close>

fun open_comment_section_from ::
  "('s, 'h) env \<Rightarrow> config \<Rightarrow> string list \<Rightarrow> 's \<Rightarrow> bool \<times> 's" where
  "open_comment_section_from env cfg [] s = (False, s)"
| "open_comment_section_from env cfg (selector # selectors) s =
     (case page_wait_for_selector env selector 3000 s of
        (Inl e, s1) \<Rightarrow> open_comment_section_from env cfg selectors s1
      | (Inr None, s1) \<Rightarrow> open_comment_section_from env cfg selectors s1
      | (Inr (Some button), s1) \<Rightarrow>
          (case is_visible env button s1 of
             Inl e \<Rightarrow> open_comment_section_from env cfg selectors s1
           | Inr False \<Rightarrow> open_comment_section_from env cfg selectors s1
           | Inr True \<Rightarrow>
               (case click env button s1 of
                  (Some e, s2) \<Rightarrow> open_comment_section_from env cfg selectors s2
                | (None, s2) \<Rightarrow>
                    (case random_delay env cfg (Some 2) (Some 3) s2 of
                       (Some e, s3) \<Rightarrow> open_comment_section_from env cfg selectors s3
                     | (None, s3) \<Rightarrow> (True, s3)))))"

definition open_comment_section :: "('s, 'h) env \<Rightarrow> config \<Rightarrow> 's \<Rightarrow> bool \<times> 's" where
  "open_comment_section env cfg s = open_comment_section_from env cfg comment_button_selectors s"

text \<open>
  \<^verbatim>\<open>_click_view_more_buttons\<close>: every visible button of every selector is clicked;
  \<open>clicked\<close> becomes true at the first click that does not raise, before the delay that
  follows the click. An exception at a button skips that button, an exception of the query
  skips that selector.
\<close>

definition view_more_selectors :: "string list" where
  \<open>view_more_selectors =
     [''text=/View more comments/i'',
      ''text=/Lihat komentar lainnya/i'',
      ''text=/View previous comments/i'',
      ''text=/Lihat komentar sebelumnya/i'',
      ''[aria-label*="more comment"]'',
      ''[aria-label*="komentar lainnya"]'']\<close>

fun click_view_more_each ::
  "('s, 'h) env \<Rightarrow> config \<Rightarrow> 'h list \<Rightarrow> bool \<Rightarrow> 's \<Rightarrow> bool \<times> 's" where
  "click_view_more_each env cfg [] clicked s = (clicked, s)"
| "click_view_more_each env cfg (button # buttons) clicked s =
     (case is_visible env button s of
        Inl e \<Rightarrow> click_view_more_each env cfg buttons clicked s
      | Inr False \<Rightarrow> click_view_more_each env cfg buttons clicked s
      | Inr True \<Rightarrow>
          (case click env button s of
             (Some e, s1) \<Rightarrow> click_view_more_each env cfg buttons clicked s1
           | (None, s1) \<Rightarrow>
               (case random_delay env cfg (Some 1) (Some 2) s1 of
                  (Some e, s2) \<Rightarrow> click_view_more_each env cfg buttons True s2
                | (None, s2) \<Rightarrow> click_view_more_each env cfg buttons True s2)))"

fun click_view_more_from ::
  "('s, 'h) env \<Rightarrow> config \<Rightarrow> string list \<Rightarrow> bool \<Rightarrow> 's \<Rightarrow> bool \<times> 's" where
  "click_view_more_from env cfg [] clicked s = (clicked, s)"
| "click_view_more_from env cfg (selector # selectors) clicked s =
     (case page_query_selector_all env selector s of
        Inl e \<Rightarrow> click_view_more_from env cfg selectors clicked s
      | Inr buttons \<Rightarrow>
          (case click_view_more_each env cfg buttons clicked s of
             (clicked1, s1) \<Rightarrow> click_view_more_from env cfg selectors clicked1 s1))"

definition click_view_more_buttons :: "('s, 'h) env \<Rightarrow> config \<Rightarrow> 's \<Rightarrow> bool \<times> 's" where
  "click_view_more_buttons env cfg s = click_view_more_from env cfg view_more_selectors False s"

text \<open>
  \<^verbatim>\<open>_expand_all_replies\<close>: the first 50 buttons of each selector; a visible one is
  scrolled into view and clicked.
\<close>

definition reply_selectors :: "string list" where
  \<open>reply_selectors =
     [''text=/View.*repl/i'',
      ''text=/Lihat.*balas/i'',
      ''text=/'' @ backslash @ ''d+ repl/i'',
      ''text=/'' @ backslash @ ''d+ balas/i'',
      ''[aria-label*="repl"]'',
      ''[aria-label*="balas"]'']\<close>

fun expand_replies_each :: "('s, 'h) env \<Rightarrow> config \<Rightarrow> 'h list \<Rightarrow> 's \<Rightarrow> 's" where
  "expand_replies_each env cfg [] s = s"
| "expand_replies_each env cfg (button # buttons) s =
     (case is_visible env button s of
        Inl e \<Rightarrow> expand_replies_each env cfg buttons s
      | Inr False \<Rightarrow> expand_replies_each env cfg buttons s
      | Inr True \<Rightarrow>
          (case scroll_into_view_if_needed env button s of
             (Some e, s1) \<Rightarrow> expand_replies_each env cfg buttons s1
           | (None, s1) \<Rightarrow>
               (case random_delay env cfg (Some (1 / 2)) (Some 1) s1 of
                  (Some e, s2) \<Rightarrow> expand_replies_each env cfg buttons s2
                | (None, s2) \<Rightarrow>
                    (case click env button s2 of
                       (Some e, s3) \<Rightarrow> expand_replies_each env cfg buttons s3
                     | (None, s3) \<Rightarrow>
                         (case random_delay env cfg (Some 1) (Some 2) s3 of
                            (Some e, s4) \<Rightarrow> expand_replies_each env cfg buttons s4
                          | (None, s4) \<Rightarrow> expand_replies_each env cfg buttons s4)))))"

fun expand_replies_from :: "('s, 'h) env \<Rightarrow> config \<Rightarrow> string list \<Rightarrow> 's \<Rightarrow> 's" where
  "expand_replies_from env cfg [] s = s"
| "expand_replies_from env cfg (selector # selectors) s =
     (case page_query_selector_all env selector s of
        Inl e \<Rightarrow> expand_replies_from env cfg selectors s
      | Inr buttons \<Rightarrow>
          expand_replies_from env cfg selectors (expand_replies_each env cfg (take 50 buttons) s))"

definition expand_all_replies :: "('s, 'h) env \<Rightarrow> config \<Rightarrow> 's \<Rightarrow> 's" where
  "expand_all_replies env cfg s = expand_replies_from env cfg reply_selectors s"

text \<open>
  \<^verbatim>\<open>_expand_see_more_in_comments\<close>: a visible button is clicked only if its own text, in
  lower case, contains \<^verbatim>\<open>see more\<close> or \<^verbatim>\<open>lihat selengkapnya\<close>. The count of expanded
  comments is only logged.
\<close>

definition see_more_selectors :: "string list" where
  \<open>see_more_selectors =
     [''text=/See more/i'',
      ''text=/Lihat selengkapnya/i'',
      ''div[role="button"]:has-text("See more")'',
      ''div[role="button"]:has-text("Lihat selengkapnya")'',
      ''[aria-label*="See more"]'',
      ''[aria-label*="Lihat selengkapnya"]'']\<close>

fun expand_see_more_each :: "('s, 'h) env \<Rightarrow> config \<Rightarrow> 'h list \<Rightarrow> 's \<Rightarrow> 's" where
  "expand_see_more_each env cfg [] s = s"
| "expand_see_more_each env cfg (button # buttons) s =
     (case is_visible env button s of
        Inl e \<Rightarrow> expand_see_more_each env cfg buttons s
      | Inr False \<Rightarrow> expand_see_more_each env cfg buttons s
      | Inr True \<Rightarrow>
          (case text_content env button s of
             Inl e \<Rightarrow> expand_see_more_each env cfg buttons s
           | Inr t \<Rightarrow>
               (let button_text = strip t in
                if list_ex (\<lambda>text. sublist text (str_lower env button_text))
                     [py ''see more'', py ''lihat selengkapnya'']
                then
                  (case scroll_into_view_if_needed env button s of
                     (Some e, s1) \<Rightarrow> expand_see_more_each env cfg buttons s1
                   | (None, s1) \<Rightarrow>
                       (case random_delay env cfg (Some (3 / 10)) (Some (6 / 10)) s1 of
                          (Some e, s2) \<Rightarrow> expand_see_more_each env cfg buttons s2
                        | (None, s2) \<Rightarrow>
                            (case click env button s2 of
                               (Some e, s3) \<Rightarrow> expand_see_more_each env cfg buttons s3
                             | (None, s3) \<Rightarrow>
                                 (case random_delay env cfg (Some (1 / 2)) (Some 1) s3 of
                                    (Some e, s4) \<Rightarrow> expand_see_more_each env cfg buttons s4
                                  | (None, s4) \<Rightarrow>
                                      expand_see_more_each env cfg buttons s4))))
                else expand_see_more_each env cfg buttons s)))"

fun expand_see_more_from :: "('s, 'h) env \<Rightarrow> config \<Rightarrow> string list \<Rightarrow> 's \<Rightarrow> 's" where
  "expand_see_more_from env cfg [] s = s"
| "expand_see_more_from env cfg (selector # selectors) s =
     (case page_query_selector_all env selector s of
        Inl e \<Rightarrow> expand_see_more_from env cfg selectors s
      | Inr buttons \<Rightarrow>
          expand_see_more_from env cfg selectors (expand_see_more_each env cfg buttons s))"

definition expand_see_more_in_comments :: "('s, 'h) env \<Rightarrow> config \<Rightarrow> 's \<Rightarrow> 's" where
  "expand_see_more_in_comments env cfg s = expand_see_more_from env cfg see_more_selectors s"

text \<open>
  \<^verbatim>\<open>_count_visible_comments\<close>: the number of matches of the first selector that has any;
  0 if none has, and 0 if a query raises.
\<close>

definition count_selectors :: "string list" where
  \<open>count_selectors =
     [''[role="article"]'', ''div[aria-label*="Comment"]'', ''div[aria-label*="Komentar"]'']\<close>

fun count_visible_from :: "('s, 'h) env \<Rightarrow> string list \<Rightarrow> 's \<Rightarrow> exn + nat" where
  "count_visible_from env [] s = Inr 0"
| "count_visible_from env (selector # selectors) s =
     (case page_query_selector_all env selector s of
        Inl e \<Rightarrow> Inl e
      | Inr comments \<Rightarrow>
          if comments \<noteq> [] then Inr (length comments)
          else count_visible_from env selectors s)"

definition count_visible_comments :: "('s, 'h) env \<Rightarrow> 's \<Rightarrow> nat" where
  "count_visible_comments env s =
     (case count_visible_from env count_selectors s of Inl e \<Rightarrow> 0 | Inr n \<Rightarrow> n)"

text \<open>
  The scroll loop of \<^verbatim>\<open>_expand_all_comments\<close> (lines 154-177). One round scrolls, waits,
  clicks the load-more buttons and counts the round; then the two \<^verbatim>\<open>break\<close> tests. An
  exception of the scroll or of the wait leaves the loop before the round is counted.
  \<^verbatim>\<open>if max_comments:\<close> is Python's truth test, false for \<^verbatim>\<open>None\<close> and for 0.
  The result is the exception that ended the loop, if one did, the final value of
  \<^verbatim>\<open>scroll_attempts\<close>, and the page.
\<close>

definition target_reached :: "('s, 'h) env \<Rightarrow> int option \<Rightarrow> 's \<Rightarrow> bool" where
  "target_reached env max_comments s =
     (case max_comments of
        None \<Rightarrow> False
      | Some m \<Rightarrow> m \<noteq> 0 \<and> int (count_visible_comments env s) \<ge> m)"

function scroll_loop ::
  "('s, 'h) env \<Rightarrow> config \<Rightarrow> int option \<Rightarrow> int \<Rightarrow> 's \<Rightarrow> exn option \<times> int \<times> 's" where
  "scroll_loop env cfg max_comments scroll_attempts s =
     (if scroll_attempts < MAX_SCROLL_ATTEMPTS cfg then
        (case human_like_scroll env cfg 600 s of
           (Some e, s1) \<Rightarrow> (Some e, scroll_attempts, s1)
         | (None, s1) \<Rightarrow>
             (case random_delay env cfg (Some 2) (Some 3) s1 of
                (Some e, s2) \<Rightarrow> (Some e, scroll_attempts, s2)
              | (None, s2) \<Rightarrow>
                  (case click_view_more_buttons env cfg s2 of
                     (more_comments_clicked, s3) \<Rightarrow>
                       if target_reached env max_comments s3
                       then (None, scroll_attempts + 1, s3)
                       else if \<not> more_comments_clicked \<and> scroll_attempts + 1 > 5
                       then (None, scroll_attempts + 1, s3)
                       else scroll_loop env cfg max_comments (scroll_attempts + 1) s3)))
      else (None, scroll_attempts, s))"
  by pat_completeness auto
termination
  by (relation "measure (\<lambda>(env, cfg, max_comments, scroll_attempts, s).
         nat (MAX_SCROLL_ATTEMPTS cfg - scroll_attempts))") auto

declare scroll_loop.simps [simp del]

text \<open>
  \<^verbatim>\<open>_expand_all_comments\<close>: an exception out of the first delay or out of the scroll loop
  skips what follows and is dropped by the handler; the function itself never raises.
\<close>

definition expand_all_comments :: "('s, 'h) env \<Rightarrow> config \<Rightarrow> int option \<Rightarrow> 's \<Rightarrow> 's" where
  "expand_all_comments env cfg max_comments s =
     (case open_comment_section env cfg s of
        (opened, s1) \<Rightarrow>
          (case random_delay env cfg (Some 1) (Some 2) s1 of
             (Some e, s2) \<Rightarrow> s2
           | (None, s2) \<Rightarrow>
               (case scroll_loop env cfg max_comments 0 s2 of
                  (Some e, scroll_attempts, s3) \<Rightarrow> s3
                | (None, scroll_attempts, s3) \<Rightarrow>
                    expand_see_more_in_comments env cfg (expand_all_replies env cfg s3))))"

section \<open>crawler.py: the post's own data\<close>

record post_info =
  post_url :: pystr
  post_author :: pystr
  post_content :: pystr
  post_timestamp :: pystr

text \<open>
  \<^verbatim>\<open>_extract_post_info\<close> fills the dictionary in place inside one \<^verbatim>\<open>try\<close>: an exception
  ends the function with what has been filled in so far. Each loop returns the exception,
  if any, and the dictionary.
\<close>

definition post_author_selectors :: "string list" where
  \<open>post_author_selectors = [''h2 a'', ''h3 a'', ''[data-ad-preview="message"] a'', ''a[role="link"]'']\<close>

definition content_selectors :: "string list" where
  \<open>content_selectors =
     [''[data-ad-preview="message"]'', ''div[data-ad-comet-preview="message"]'', ''[dir="auto"]'']\<close>

fun post_author_from ::
  "('s, 'h) env \<Rightarrow> string list \<Rightarrow> post_info \<Rightarrow> 's \<Rightarrow> exn option \<times> post_info" where
  "post_author_from env [] info s = (None, info)"
| "post_author_from env (selector # selectors) info s =
     (case page_query_selector env selector s of
        Inl e \<Rightarrow> (Some e, info)
      | Inr None \<Rightarrow> post_author_from env selectors info s
      | Inr (Some element) \<Rightarrow>
          (case text_content env element s of
             Inl e \<Rightarrow> (Some e, info)
           | Inr t \<Rightarrow>
               if strip t \<noteq> [] then (None, info\<lparr>post_author := strip t\<rparr>)
               else post_author_from env selectors (info\<lparr>post_author := strip t\<rparr>) s))"

text \<open>The inner loop over the elements of one selector, with its \<^verbatim>\<open>break\<close> (lines 92-96).\<close>

fun post_content_each ::
  "('s, 'h) env \<Rightarrow> 'h list \<Rightarrow> post_info \<Rightarrow> 's \<Rightarrow> exn option \<times> post_info" where
  "post_content_each env [] info s = (None, info)"
| "post_content_each env (element # elements) info s =
     (case text_content env element s of
        Inl e \<Rightarrow> (Some e, info)
      | Inr t \<Rightarrow>
          if strip t \<noteq> [] \<and> length (strip t) > length (post_content info)
          then (None, info\<lparr>post_content := strip t\<rparr>)
          else post_content_each env elements info s)"

text \<open>The outer loop over the selectors, left as soon as a content is set (lines 90-98).\<close>

fun post_content_from ::
  "('s, 'h) env \<Rightarrow> string list \<Rightarrow> post_info \<Rightarrow> 's \<Rightarrow> exn option \<times> post_info" where
  "post_content_from env [] info s = (None, info)"
| "post_content_from env (selector # selectors) info s =
     (case page_query_selector_all env selector s of
        Inl e \<Rightarrow> (Some e, info)
      | Inr elements \<Rightarrow>
          (case post_content_each env elements info s of
             (Some e, info1) \<Rightarrow> (Some e, info1)
           | (None, info1) \<Rightarrow>
               if post_content info1 \<noteq> [] then (None, info1)
               else post_content_from env selectors info1 s))"

text \<open>Lines 100-102: a content of more than 500 characters is cut, with an ellipsis.\<close>

definition limit_content_length :: "post_info \<Rightarrow> post_info" where
  "limit_content_length info =
     (if length (post_content info) > 500
      then info\<lparr>post_content := take 500 (post_content info) @ py ''...''\<rparr>
      else info)"

definition extract_post_info :: "('s, 'h) env \<Rightarrow> 's \<Rightarrow> post_info" where
  "extract_post_info env s =
     (case post_author_from env post_author_selectors
             \<lparr>post_url = page_url env s, post_author = [], post_content = [],
              post_timestamp = []\<rparr> s of
        (Some e, info1) \<Rightarrow> info1
      | (None, info1) \<Rightarrow>
          (case post_content_from env content_selectors info1 s of
             (Some e, info2) \<Rightarrow> info2
           | (None, info2) \<Rightarrow> limit_content_length info2))"

section \<open>crawler.py: one comment\<close>

text \<open>
  The record a comment becomes: the post's four fields (\<^verbatim>\<open>**post_info\<close>) and the
  comment's own. \<^verbatim>\<open>comment_id\<close> is not set by \<^verbatim>\<open>_extract_single_comment\<close>; the caller
  adds it.
\<close>

record comment = post_info +
  comment_author_name :: pystr
  comment_author_url :: pystr
  comment_text :: pystr
  comment_timestamp :: pystr
  parent_comment_id :: pystr
  likes_count :: nat
  replies_count :: nat
  crawled_at :: pystr
  comment_id :: "pystr option"

subsection \<open>Author (lines 377-416)\<close>

definition author_selectors :: "string list" where
  \<open>author_selectors =
     [''a[role="link"]'',
      ''a[href*="/user/"]'',
      ''a[href*="/profile"]'',
      ''a[aria-label]'',
      ''span[dir="auto"] a'',
      ''h4 a'',
      ''strong a'']\<close>

text \<open>\<^verbatim>\<open>x or ""\<close> for an attribute value \<open>x\<close> that may be \<^verbatim>\<open>None\<close>.\<close>

definition or_empty :: "pystr option \<Rightarrow> pystr" where
  "or_empty x = (case x of None \<Rightarrow> [] | Some v \<Rightarrow> v)"

text \<open>
  The loop over the selectors. Each round is its own \<^verbatim>\<open>try\<close> with \<^verbatim>\<open>except: continue\<close>.
  The name is assigned before the \<^verbatim>\<open>href\<close> is read: if reading it raises, the name
  stays assigned and the loop goes on with the next selector.
\<close>

fun author_from ::
  "('s, 'h) env \<Rightarrow> 'h \<Rightarrow> string list \<Rightarrow> pystr \<times> pystr \<Rightarrow> 's \<Rightarrow> pystr \<times> pystr" where
  "author_from env element [] (author_name, author_url) s = (author_name, author_url)"
| "author_from env element (selector # selectors) (author_name, author_url) s =
     (case query_selector env element selector s of
        Inl e \<Rightarrow> author_from env element selectors (author_name, author_url) s
      | Inr None \<Rightarrow> author_from env element selectors (author_name, author_url) s
      | Inr (Some author_link) \<Rightarrow>
          (case text_content env author_link s of
             Inl e \<Rightarrow> author_from env element selectors (author_name, author_url) s
           | Inr t \<Rightarrow>
               if strip t \<noteq> [] \<and> length (strip t) > 0 then
                 (case get_attribute env author_link ''href'' s of
                    Inl e \<Rightarrow> author_from env element selectors (strip t, author_url) s
                  | Inr href \<Rightarrow> (strip t, or_empty href))
               else author_from env element selectors (author_name, author_url) s))"

definition action_labels :: "pystr list" where
  "action_labels = [py ''Like'', py ''Reply'', py ''Suka'', py ''Balas'']"

text \<open>
  The fallback over all links, one \<^verbatim>\<open>try\<close> around the whole loop with
  \<^verbatim>\<open>except: pass\<close>: an exception ends the loop.
\<close>

fun author_any_link ::
  "('s, 'h) env \<Rightarrow> 'h list \<Rightarrow> pystr \<times> pystr \<Rightarrow> 's \<Rightarrow> pystr \<times> pystr" where
  "author_any_link env [] (author_name, author_url) s = (author_name, author_url)"
| "author_any_link env (link # links) (author_name, author_url) s =
     (case text_content env link s of
        Inl e \<Rightarrow> (author_name, author_url)
      | Inr t \<Rightarrow>
          if strip t \<noteq> [] \<and> length (strip t) > 2 \<and> strip t \<notin> set action_labels then
            (case get_attribute env link ''href'' s of
               Inl e \<Rightarrow> (strip t, author_url)
             | Inr href \<Rightarrow> (strip t, or_empty href))
          else author_any_link env links (author_name, author_url) s)"

definition comment_author :: "('s, 'h) env \<Rightarrow> 'h \<Rightarrow> 's \<Rightarrow> pystr \<times> pystr" where
  "comment_author env element s =
     (case author_from env element author_selectors ([], []) s of
        (author_name, author_url) \<Rightarrow>
          if author_name = [] then
            (case query_selector_all env element ''a'' s of
               Inl e \<Rightarrow> (author_name, author_url)
             | Inr all_links \<Rightarrow> author_any_link env all_links (author_name, author_url) s)
          else (author_name, author_url))"

subsection \<open>Body (lines 418-438)\<close>

definition button_labels :: "pystr list" where
  "button_labels =
     [py ''Like'', py ''Reply'', py ''Suka'', py ''Balas'', py ''Komentar'', py ''Comment'']"

text \<open>Strategy 1: the longest text of more than 5 characters that is no label.\<close>

fun longest_text ::
  "('s, 'h) env \<Rightarrow> 'h list \<Rightarrow> pystr \<Rightarrow> pystr \<Rightarrow> 's \<Rightarrow> exn + pystr" where
  "longest_text env [] author_name body s = Inr body"
| "longest_text env (text_elem # text_elements) author_name body s =
     (case text_content env text_elem s of
        Inl e \<Rightarrow> Inl e
      | Inr t \<Rightarrow>
          if strip t \<noteq> [] \<and> length (strip t) > 5 \<and>
             strip t \<notin> set (author_name # button_labels) \<and>
             length (strip t) > length body
          then longest_text env text_elements author_name (strip t) s
          else longest_text env text_elements author_name body s)"

text \<open>Strategy 2: the whole text of the node without the noise strings; 183 is U+00B7.\<close>

definition noise_strings :: "pystr \<Rightarrow> pystr list" where
  "noise_strings author_name =
     [author_name, py ''Like'', py ''Reply'', py ''Suka'', py ''Balas'', [183],
      py ''Just now'', py ''yang lalu'']"

definition comment_body :: "('s, 'h) env \<Rightarrow> 'h \<Rightarrow> pystr \<Rightarrow> 's \<Rightarrow> exn + pystr" where
  \<open>comment_body env element author_name s =
     (case query_selector_all env element ''div[dir="auto"], span[dir="auto"]'' s of
        Inl e \<Rightarrow> Inl e
      | Inr text_elements \<Rightarrow>
          (case longest_text env text_elements author_name [] s of
             Inl e \<Rightarrow> Inl e
           | Inr body \<Rightarrow>
               if body = [] then
                 (case text_content env element s of
                    Inl e \<Rightarrow> Inl e
                  | Inr t \<Rightarrow>
                      Inr (strip (foldl (\<lambda>full_text noise. delete_all noise full_text)
                                    (strip t) (noise_strings author_name))))
               else Inr body))\<close>

subsection \<open>Timestamp (lines 463-481)\<close>

text \<open>
  The two searches, both with \<^verbatim>\<open>re.IGNORECASE\<close>:
  \<^verbatim>\<open>\d+\s*(m|h|d|j|w|hari|jam|menit|minggu|bulan|tahun|detik|s)\<close> and
  \<^verbatim>\<open>just now|ago|yang lalu|baru saja\<close>. \<open>word_here\<close> is a literal word at the front of
  the text. A search succeeds if the pattern matches at some position in some way: after
  a first digit come more digits, then whitespace, then a unit.
\<close>

definition word_here :: "('s, 'h) env \<Rightarrow> pystr \<Rightarrow> pystr \<Rightarrow> bool" where
  "word_here env word s \<longleftrightarrow>
     length word \<le> length s \<and> list_all2 (ignorecase_eq env) (take (length word) s) word"

definition time_units :: "pystr list" where
  "time_units =
     [py ''m'', py ''h'', py ''d'', py ''j'', py ''w'', py ''hari'', py ''jam'', py ''menit'',
      py ''minggu'', py ''bulan'', py ''tahun'', py ''detik'', py ''s'']"

definition time_words :: "pystr list" where
  "time_words = [py ''just now'', py ''ago'', py ''yang lalu'', py ''baru saja'']"

fun unit_after_spaces :: "('s, 'h) env \<Rightarrow> pystr \<Rightarrow> bool" where
  "unit_after_spaces env [] = list_ex (\<lambda>u. word_here env u []) time_units"
| "unit_after_spaces env (c # r) =
     (list_ex (\<lambda>u. word_here env u (c # r)) time_units \<or> (isspace c \<and> unit_after_spaces env r))"

fun unit_after_digits :: "('s, 'h) env \<Rightarrow> pystr \<Rightarrow> bool" where
  "unit_after_digits env [] = unit_after_spaces env []"
| "unit_after_digits env (c # r) =
     (unit_after_spaces env (c # r) \<or> (decimal env c \<noteq> None \<and> unit_after_digits env r))"

fun search_relative_time :: "('s, 'h) env \<Rightarrow> pystr \<Rightarrow> bool" where
  "search_relative_time env [] = False"
| "search_relative_time env (c # r) =
     ((decimal env c \<noteq> None \<and> unit_after_digits env r) \<or> search_relative_time env r)"

fun search_time_words :: "('s, 'h) env \<Rightarrow> pystr \<Rightarrow> bool" where
  "search_time_words env [] = list_ex (\<lambda>w. word_here env w []) time_words"
| "search_time_words env (c # r) =
     (list_ex (\<lambda>w. word_here env w (c # r)) time_words \<or> search_time_words env r)"

definition time_like :: "('s, 'h) env \<Rightarrow> pystr \<Rightarrow> bool" where
  "time_like env text \<longleftrightarrow> search_relative_time env text \<or> search_time_words env text"

fun timestamp_from ::
  "('s, 'h) env \<Rightarrow> 'h list \<Rightarrow> pystr \<Rightarrow> pystr \<Rightarrow> 's \<Rightarrow> exn + pystr" where
  "timestamp_from env [] author_name body s = Inr []"
| "timestamp_from env (time_elem # time_elements) author_name body s =
     (case text_content env time_elem s of
        Inl e \<Rightarrow> Inl e
      | Inr t \<Rightarrow>
          if length (strip t) > 50 then
            timestamp_from env time_elements author_name body s
          else if strip t = author_name \<or> strip t = body then
            timestamp_from env time_elements author_name body s
          else if time_like env (strip t) then Inr (strip t)
          else timestamp_from env time_elements author_name body s)"

definition comment_time ::
  "('s, 'h) env \<Rightarrow> 'h \<Rightarrow> pystr \<Rightarrow> pystr \<Rightarrow> 's \<Rightarrow> exn + pystr" where
  "comment_time env element author_name body s =
     (case query_selector_all env element ''a, span'' s of
        Inl e \<Rightarrow> Inl e
      | Inr time_elements \<Rightarrow> timestamp_from env time_elements author_name body s)"

subsection \<open>Likes and replies (lines 485-510)\<close>

text \<open>
  \<^verbatim>\<open>re.search(r'(\d+)', s)\<close> and \<^verbatim>\<open>int\<close> of its group: the value of the first run of
  decimal digits, if there is one.
\<close>

definition search_int :: "('s, 'h) env \<Rightarrow> pystr \<Rightarrow> nat option" where
  "search_int env s =
     (let r = dropWhile (\<lambda>c. decimal env c = None) s in
      if r = [] then None
      else Some (foldl (\<lambda>n d. 10 * n + d) 0
                   (List.map_filter (decimal env) (takeWhile (\<lambda>c. decimal env c \<noteq> None) r))))"

fun likes_from :: "('s, 'h) env \<Rightarrow> 'h list \<Rightarrow> 's \<Rightarrow> exn + nat" where
  "likes_from env [] s = Inr 0"
| "likes_from env (like_elem # like_elements) s =
     (case get_attribute env like_elem ''aria-label'' s of
        Inl e \<Rightarrow> Inl e
      | Inr aria_label \<Rightarrow>
          (case search_int env (or_empty aria_label) of
             Some n \<Rightarrow> Inr n
           | None \<Rightarrow> likes_from env like_elements s))"

definition comment_likes :: "('s, 'h) env \<Rightarrow> 'h \<Rightarrow> 's \<Rightarrow> nat" where
  \<open>comment_likes env element s =
     (case query_selector_all env element ''[aria-label*="eaction"]'' s of
        Inl e \<Rightarrow> 0
      | Inr like_elements \<Rightarrow>
          (case likes_from env like_elements s of Inl e \<Rightarrow> 0 | Inr n \<Rightarrow> n))\<close>

fun replies_from :: "('s, 'h) env \<Rightarrow> 'h list \<Rightarrow> 's \<Rightarrow> exn + nat" where
  "replies_from env [] s = Inr 0"
| "replies_from env (reply_btn # reply_buttons) s =
     (case text_content env reply_btn s of
        Inl e \<Rightarrow> Inl e
      | Inr text \<Rightarrow>
          (case search_int env text of
             Some n \<Rightarrow> Inr n
           | None \<Rightarrow> replies_from env reply_buttons s))"

definition comment_replies :: "('s, 'h) env \<Rightarrow> 'h \<Rightarrow> 's \<Rightarrow> nat" where
  "comment_replies env element s =
     (case query_selector_all env element
             (''text=/'' @ backslash @ ''d+ repl|'' @ backslash @ ''d+ balas/i'') s of
        Inl e \<Rightarrow> 0
      | Inr reply_buttons \<Rightarrow>
          (case replies_from env reply_buttons s of Inl e \<Rightarrow> 0 | Inr n \<Rightarrow> n))"

subsection \<open>The record (lines 370-530)\<close>

text \<open>
  \<open>single_comment\<close> is the body of the \<^verbatim>\<open>try\<close>: an exception, no record (\<^verbatim>\<open>None\<close>), or
  the record. \<^verbatim>\<open>_extract_single_comment\<close> turns an exception into \<^verbatim>\<open>None\<close>.
\<close>

definition single_comment ::
  "('s, 'h) env \<Rightarrow> 'h \<Rightarrow> post_info \<Rightarrow> 's \<Rightarrow> exn + comment option" where
  "single_comment env element info s =
     (case comment_author env element s of
        (author_name, author_url) \<Rightarrow>
          (case comment_body env element author_name s of
             Inl e \<Rightarrow> Inl e
           | Inr raw_text \<Rightarrow>
               (let body = clean_comment_text raw_text in
                if author_name = [] \<and> body = [] then Inr None
                else
                  (let author_name = (if author_name = [] then py ''Unknown User''
                                      else author_name) in
                   if length body < 2 then Inr None
                   else
                     (case comment_time env element author_name body s of
                        Inl e \<Rightarrow> Inl e
                      | Inr timestamp \<Rightarrow>
                          Inr (Some
                            \<lparr>post_url = post_url info,
                             post_author = post_author info,
                             post_content = post_content info,
                             post_timestamp = post_timestamp info,
                             comment_author_name = author_name,
                             comment_author_url = author_url,
                             comment_text = body,
                             comment_timestamp = timestamp,
                             parent_comment_id = [],
                             likes_count = comment_likes env element s,
                             replies_count = comment_replies env element s,
                             crawled_at = now_isoformat env s,
                             comment_id = None\<rparr>))))))"

definition extract_single_comment ::
  "('s, 'h) env \<Rightarrow> 'h \<Rightarrow> post_info \<Rightarrow> 's \<Rightarrow> comment option" where
  "extract_single_comment env element info s =
     (case single_comment env element info s of Inl e \<Rightarrow> None | Inr r \<Rightarrow> r)"

section \<open>crawler.py: all comments of a post\<close>

text \<open>
  Comment discovery (lines 329-347): the selectors are tried in order and the first
  non-empty answer is taken. A query that raises ends \<^verbatim>\<open>_extract_comments\<close> through its
  handler, with the empty list of comments.
\<close>

definition comment_selectors :: "string list" where
  \<open>comment_selectors =
     [''div[aria-label*="Comment by"]'',
      ''div[aria-label*="Komentar oleh"]'',
      ''div[role="article"] div[dir="auto"]'',
      ''[role="article"]'']\<close>

fun comment_elements_from :: "('s, 'h) env \<Rightarrow> string list \<Rightarrow> 's \<Rightarrow> exn + 'h list" where
  "comment_elements_from env [] s = Inr []"
| "comment_elements_from env (selector # selectors) s =
     (case page_query_selector_all env selector s of
        Inl e \<Rightarrow> Inl e
      | Inr elements \<Rightarrow>
          if elements \<noteq> [] then Inr elements
          else comment_elements_from env selectors s)"

text \<open>\<^verbatim>\<open>str(n)\<close> for the index in \<^verbatim>\<open>f"comment_{idx}"\<close>.\<close>

fun str_of_nat :: "nat \<Rightarrow> pystr" where
  "str_of_nat n = (if n < 10 then [48 + n] else str_of_nat (n div 10) @ [48 + n mod 10])"

declare str_of_nat.simps [simp del]

text \<open>The loop over the candidates with their index (lines 355-363).\<close>

fun extract_each ::
  "('s, 'h) env \<Rightarrow> 'h list \<Rightarrow> nat \<Rightarrow> post_info \<Rightarrow> 's \<Rightarrow> comment list" where
  "extract_each env [] idx info s = []"
| "extract_each env (element # elements) idx info s =
     (case extract_single_comment env element info s of
        None \<Rightarrow> extract_each env elements (idx + 1) info s
      | Some comment_data \<Rightarrow>
          comment_data\<lparr>comment_id := Some (py ''comment_'' @ str_of_nat idx)\<rparr>
            # extract_each env elements (idx + 1) info s)"

definition extract_comments ::
  "('s, 'h) env \<Rightarrow> config \<Rightarrow> post_info \<Rightarrow> 's \<Rightarrow> comment list \<times> 's" where
  "extract_comments env cfg info s =
     (case random_delay env cfg (Some 1) (Some 2) s of
        (Some e, s1) \<Rightarrow> ([], s1)
      | (None, s1) \<Rightarrow>
          (case comment_elements_from env comment_selectors s1 of
             Inl e \<Rightarrow> ([], s1)
           | Inr comment_elements \<Rightarrow> (extract_each env comment_elements 0 info s1, s1)))"

text \<open>
  \<^verbatim>\<open>crawl_post_comments\<close>: \<open>crawl_post\<close> is the body of its \<^verbatim>\<open>try\<close>, the function itself
  adds the handler \<^verbatim>\<open>except Exception: return []\<close>.
\<close>

definition crawl_post ::
  "('s, 'h) env \<Rightarrow> config \<Rightarrow> pystr \<Rightarrow> int option \<Rightarrow> 's \<Rightarrow> (exn + comment list) \<times> 's" where
  "crawl_post env cfg url max_comments s =
     (case page_goto env url (REQUEST_TIMEOUT cfg) s of
        (Some e, s1) \<Rightarrow> (Inl e, s1)
      | (None, s1) \<Rightarrow>
          (case random_delay env cfg (Some 3) (Some 5) s1 of
             (Some e, s2) \<Rightarrow> (Inl e, s2)
           | (None, s2) \<Rightarrow>
               (let info = extract_post_info env s2;
                    s3 = expand_all_comments env cfg max_comments s2
                in case extract_comments env cfg info s3 of
                     (comments, s4) \<Rightarrow> (Inr comments, s4))))"

definition crawl_post_comments ::
  "('s, 'h) env \<Rightarrow> config \<Rightarrow> pystr \<Rightarrow> int option \<Rightarrow> 's \<Rightarrow> (exn + comment list) \<times> 's" where
  "crawl_post_comments env cfg url max_comments s =
     (case crawl_post env cfg url max_comments s of
        (Inl e, s1) \<Rightarrow> (Inr [], s1)
      | (Inr comments, s1) \<Rightarrow> (Inr comments, s1))"

section \<open>main.py: the loop over the posts\<close>


section \<open>Notions used in the statements and proofs\<close>

text \<open>
  \<open>url_char\<close> is a character that one pass through the group of the URL patterns takes;
  \<open>hit\<close> says that a pattern matches at the front of a string; \<open>words_ok\<close> describes
  the words of a text whose whitespace has been collapsed.
\<close>

definition url_char :: "nat \<Rightarrow> bool" where
  "url_char c \<longleftrightarrow> url_alpha c \<or> url_digit c \<or> url_punct c \<or> url_paren c"

definition hit :: "pystr list \<Rightarrow> pystr \<Rightarrow> bool" where
  "hit hs s \<longleftrightarrow> (\<exists>h\<in>set hs. \<exists>c. url_char c \<and> prefix (h @ [c]) s)"

definition heads_ok :: "pystr list \<Rightarrow> bool" where
  "heads_ok hs \<longleftrightarrow> (\<forall>h\<in>set hs. \<forall>x\<in>set h. url_char x)"

definition words_ok :: "pystr list \<Rightarrow> bool" where
  "words_ok ws \<longleftrightarrow> (\<forall>w\<in>set ws. w \<noteq> [] \<and> (\<forall>c\<in>set w. \<not> isspace c))"

text \<open>
  For the scroll loop. \<open>scroll_round\<close> is one round without its tests: the exception that
  ends it, if any, whether a load-more button was clicked, and the page it leaves.
  \<open>page_after k\<close> is the page after \<open>k\<close> rounds. \<open>raises_in k\<close> says that the scroll or
  the wait of round \<open>k\<close> raises; \<open>stops_at k\<close> that one of the three stop conditions holds
  at the end of round \<open>k\<close>: the target is reached, nothing was clicked and more than five
  rounds are done, or the budget is used up. \<open>ends_at k\<close> is either of the two.
\<close>

definition scroll_round :: "('s, 'h) env \<Rightarrow> config \<Rightarrow> 's \<Rightarrow> exn option \<times> bool \<times> 's" where
  "scroll_round env cfg s =
     (case human_like_scroll env cfg 600 s of
        (Some e, s1) \<Rightarrow> (Some e, False, s1)
      | (None, s1) \<Rightarrow>
          (case random_delay env cfg (Some 2) (Some 3) s1 of
             (Some e, s2) \<Rightarrow> (Some e, False, s2)
           | (None, s2) \<Rightarrow>
               (case click_view_more_buttons env cfg s2 of
                  (clicked, s3) \<Rightarrow> (None, clicked, s3))))"

fun page_after :: "('s, 'h) env \<Rightarrow> config \<Rightarrow> nat \<Rightarrow> 's \<Rightarrow> 's" where
  "page_after env cfg 0 s = s"
| "page_after env cfg (Suc k) s = snd (snd (scroll_round env cfg (page_after env cfg k s)))"

definition raises_in :: "('s, 'h) env \<Rightarrow> config \<Rightarrow> 's \<Rightarrow> nat \<Rightarrow> bool" where
  "raises_in env cfg s k \<longleftrightarrow> fst (scroll_round env cfg (page_after env cfg (k - 1) s)) \<noteq> None"

definition clicked_in :: "('s, 'h) env \<Rightarrow> config \<Rightarrow> 's \<Rightarrow> nat \<Rightarrow> bool" where
  "clicked_in env cfg s k \<longleftrightarrow> fst (snd (scroll_round env cfg (page_after env cfg (k - 1) s)))"

definition stops_at :: "('s, 'h) env \<Rightarrow> config \<Rightarrow> int option \<Rightarrow> 's \<Rightarrow> nat \<Rightarrow> bool" where
  "stops_at env cfg max_comments s k \<longleftrightarrow>
     target_reached env max_comments (page_after env cfg k s) \<or>
     (\<not> clicked_in env cfg s k \<and> 5 < k) \<or>
     MAX_SCROLL_ATTEMPTS cfg \<le> int k"

definition ends_at :: "('s, 'h) env \<Rightarrow> config \<Rightarrow> int option \<Rightarrow> 's \<Rightarrow> nat \<Rightarrow> bool" where
  "ends_at env cfg max_comments s k \<longleftrightarrow>
     raises_in env cfg s k \<or> stops_at env cfg max_comments s k"

section \<open>Synthetic pages\<close>

text \<open>
  Concrete browsers for the scenarios: the page state is the number of scroll-script calls
  so far, handles are numbers, the random source always draws 0 (so that a scroll has
  three increments), and the tables are the ASCII ones. A page is given by what its
  queries answer.
\<close>

definition ascii_decimal :: "nat \<Rightarrow> nat option" where
  "ascii_decimal c = (if 48 \<le> c \<and> c \<le> 57 then Some (c - 48) else None)"

definition ascii_lower :: "nat \<Rightarrow> nat" where
  "ascii_lower c = (if 65 \<le> c \<and> c \<le> 90 then c + 32 else c)"

definition first_of :: "exn + nat list \<Rightarrow> exn + nat option" where
  "first_of r = (case r of Inl e \<Rightarrow> Inl e | Inr [] \<Rightarrow> Inr None | Inr (h # hs) \<Rightarrow> Inr (Some h))"

definition synthetic_env ::
  "(pystr \<Rightarrow> bool) \<Rightarrow> (nat \<Rightarrow> string \<Rightarrow> exn + nat list) \<Rightarrow> (nat \<Rightarrow> string \<Rightarrow> exn + nat list) \<Rightarrow>
   (nat \<Rightarrow> exn + pystr) \<Rightarrow> (nat \<Rightarrow> string \<Rightarrow> pystr option) \<Rightarrow> (nat, nat) env" where
  "synthetic_env reachable page_matches matches text attribute =
     \<lparr>page_goto = (\<lambda>url timeout s. if reachable url then (None, s) else (Some PlaywrightTimeout, s)),
      page_url = (\<lambda>s. []),
      page_query_selector = (\<lambda>selector s. first_of (page_matches s selector)),
      page_query_selector_all = (\<lambda>selector s. page_matches s selector),
      page_wait_for_selector = (\<lambda>selector timeout s. (Inl PlaywrightTimeout, s)),
      page_evaluate = (\<lambda>amount selector s. (None, s + 1)),
      query_selector = (\<lambda>element selector s. first_of (matches element selector)),
      query_selector_all = (\<lambda>element selector s. matches element selector),
      text_content = (\<lambda>element s. text element),
      get_attribute = (\<lambda>element name s. Inr (attribute element name)),
      is_visible = (\<lambda>element s. Inr True),
      click = (\<lambda>element s. (None, s)),
      scroll_into_view_if_needed = (\<lambda>element s. (None, s)),
      time_sleep = (\<lambda>seconds s. s),
      random_random = (\<lambda>s. (0, s)),
      random_below = (\<lambda>n s. (0, s)),
      now_isoformat = (\<lambda>s. py ''2024-01-01T00:00:00''),
      decimal = ascii_decimal,
      ignorecase_eq = (\<lambda>a b. ascii_lower a = ascii_lower b),
      str_lower = map ascii_lower\<rparr>"

definition default_config :: config where
  "default_config =
     \<lparr>MIN_DELAY = 2, MAX_DELAY = 5, SCROLL_PAUSE_TIME = 2, MAX_SCROLL_ATTEMPTS = 10,
      REQUEST_TIMEOUT = 30000\<rparr>"

text \<open>
  A feed that shows two more comments after every scroll (three script calls), and the same
  feed with a scroll script that raises from its fourth call on.
\<close>

definition feed_page :: "(nat, nat) env" where
  \<open>feed_page = synthetic_env (\<lambda>url. True)
     (\<lambda>s selector. if selector = ''[role="article"]'' then Inr [0 ..< 2 * (s div 3)] else Inr [])
     (\<lambda>element selector. Inr []) (\<lambda>element. Inr []) (\<lambda>element name. None)\<close>


definition raising_feed :: "(nat, nat) env" where
  "raising_feed =
     feed_page\<lparr>page_evaluate :=
       (\<lambda>amount selector s. if s < 3 then (None, s + 1) else (Some PlaywrightError, s + 1))\<rparr>"

text \<open>A node with one text element, the body of scenario C, and no link.\<close>

definition link_node :: "(nat, nat) env" where
  \<open>link_node = synthetic_env (\<lambda>url. True) (\<lambda>s selector. Inr [])
     (\<lambda>element selector.
        if element = 0 \<and> selector = ''div[dir="auto"], span[dir="auto"]'' then Inr [1] else Inr [])
     (\<lambda>element. Inr (py ''Check this out http://example.com/x?y=1 thanks''))
     (\<lambda>element name. None)\<close>

definition no_post :: post_info where
  "no_post = \<lparr>post_url = [], post_author = [], post_content = [], post_timestamp = []\<rparr>"


definition link_record :: comment where
  "link_record =
     \<lparr>post_url = [], post_author = [], post_content = [], post_timestamp = [],
      comment_author_name = py ''Unknown User'', comment_author_url = [],
      comment_text = py ''Check this out thanks'', comment_timestamp = [],
      parent_comment_id = [], likes_count = 0, replies_count = 0,
      crawled_at = py ''2024-01-01T00:00:00'', comment_id = None\<rparr>"

text \<open>
  Scenario A: a post whose three comments are on the page once the script has scrolled
  three times. The first and the third have an author link under \<^verbatim>\<open>h4\<close>, the second has
  none; each has one text element. The address \<^verbatim>\<open>bad\<close> cannot be reached. The scroll
  script is a parameter: \<open>post_page\<close> has the one that always works, \<open>raising_post\<close> the
  one that raises from its fourth call on.
\<close>

definition comments_page ::
  "(int \<Rightarrow> string option \<Rightarrow> nat \<Rightarrow> exn option \<times> nat) \<Rightarrow> (nat, nat) env" where
  \<open>comments_page script =
     (synthetic_env (\<lambda>url. url \<noteq> py ''bad'')
        (\<lambda>s selector. if selector = ''[role="article"]'' \<and> 3 \<le> s then Inr [0, 1, 2] else Inr [])
        (\<lambda>element selector.
           if selector = ''div[dir="auto"], span[dir="auto"]'' \<and> element < 3
           then Inr [element + 20]
           else if selector = ''h4 a'' \<and> (element = 0 \<or> element = 2) then Inr [element + 10]
           else Inr [])
        (\<lambda>element. Inr (if element = 10 then py ''Alice''
                         else if element = 12 then py ''Bob''
                         else if element = 20 then py ''Great photo''
                         else if element = 21 then py ''Nice post!!''
                         else if element = 22 then py ''Thanks a lot''
                         else []))
        (\<lambda>element name. if name = ''href'' \<and> element = 10 then Some (py ''/user/alice'')
                         else if name = ''href'' \<and> element = 12 then Some (py ''/user/bob'')
                         else None))
     \<lparr>page_evaluate := script\<rparr>\<close>

definition steady_script :: "int \<Rightarrow> string option \<Rightarrow> nat \<Rightarrow> exn option \<times> nat" where
  "steady_script amount selector s = (None, s + 1)"


definition post_page :: "(nat, nat) env" where
  "post_page = comments_page steady_script"


definition plain_record :: "pystr \<Rightarrow> pystr \<Rightarrow> pystr \<Rightarrow> pystr option \<Rightarrow> comment" where
  "plain_record name href body ident =
     \<lparr>post_url = [], post_author = [], post_content = [], post_timestamp = [],
      comment_author_name = name, comment_author_url = href,
      comment_text = body, comment_timestamp = [],
      parent_comment_id = [], likes_count = 0, replies_count = 0,
      crawled_at = py ''2024-01-01T00:00:00'', comment_id = ident\<rparr>"

definition scenario_A_records :: "comment list" where
  "scenario_A_records =
     [plain_record (py ''Alice'') (py ''/user/alice'') (py ''Great photo'')
        (Some (py ''comment_0'')),
      plain_record (py ''Unknown User'') [] (py ''Nice post!!'') (Some (py ''comment_1'')),
      plain_record (py ''Bob'') (py ''/user/bob'') (py ''Thanks a lot'')
        (Some (py ''comment_2''))]"

text \<open>
  For the post's own data. \<open>initial_info\<close> is the dictionary \<^verbatim>\<open>_extract_post_info\<close> starts
  with. \<open>extracted_content\<close> is the content it has extracted when it comes to the length
  limit: empty if the author loop or the content loop raised.
\<close>

definition initial_info :: "('s, 'h) env \<Rightarrow> 's \<Rightarrow> post_info" where
  "initial_info env s =
     \<lparr>post_url = page_url env s, post_author = [], post_content = [], post_timestamp = []\<rparr>"

definition extracted_content :: "('s, 'h) env \<Rightarrow> 's \<Rightarrow> pystr" where
  "extracted_content env s =
     (case post_author_from env post_author_selectors (initial_info env s) s of
        (Some e, info1) \<Rightarrow> []
      | (None, info1) \<Rightarrow> post_content (snd (post_content_from env content_selectors info1 s)))"

text \<open>
  A post whose message element holds \<open>n\<close> letters \<^verbatim>\<open>x\<close>, and a post whose message selector
  matches two elements, a short one before a long one.
\<close>

definition long_post :: "nat \<Rightarrow> (nat, nat) env" where
  \<open>long_post n = synthetic_env (\<lambda>url. True)
     (\<lambda>s selector. if selector = ''[data-ad-preview="message"]'' then Inr [0] else Inr [])
     (\<lambda>element selector. Inr []) (\<lambda>element. Inr (replicate n 120)) (\<lambda>element name. None)\<close>

definition two_texts_post :: "(nat, nat) env" where
  \<open>two_texts_post = synthetic_env (\<lambda>url. True)
     (\<lambda>s selector. if selector = ''[data-ad-preview="message"]'' then Inr [0, 1] else Inr [])
     (\<lambda>element selector. Inr [])
     (\<lambda>element. Inr (if element = 0 then py ''Hi'' else py ''Hello world''))
     (\<lambda>element name. None)\<close>

text \<open>
  For discovery: a page on which the third and the fourth selector of the chain have
  matches, and a page on which the query of the first selector raises while the second
  has matches.
\<close>

definition fallback_page :: "(nat, nat) env" where
  \<open>fallback_page = synthetic_env (\<lambda>url. True)
     (\<lambda>s selector. if selector = ''div[role="article"] div[dir="auto"]'' then Inr [5, 6]
                     else if selector = ''[role="article"]'' then Inr [7, 8, 9]
                     else Inr [])
     (\<lambda>element selector. Inr []) (\<lambda>element. Inr []) (\<lambda>element name. None)\<close>

definition broken_query_page :: "(nat, nat) env" where
  \<open>broken_query_page = synthetic_env (\<lambda>url. True)
     (\<lambda>s selector. if selector = ''div[aria-label*="Comment by"]'' then Inl PlaywrightError
                     else if selector = ''div[aria-label*="Komentar oleh"]'' then Inr [1, 2]
                     else Inr [])
     (\<lambda>element selector. Inr []) (\<lambda>element. Inr []) (\<lambda>element name. None)\<close>

lemma url_unit_char: "url_unit (c # cs) = (if url_char c then Some cs else None)"
  by (auto simp: url_char_def url_punct_def)

lemma url_many_dropWhile: "url_many s = dropWhile url_char s"
proof (induction s)
  case Nil
  show ?case by (subst url_many.simps) simp
next
  case (Cons c cs)
  then show ?case by (subst url_many.simps) (simp add: url_unit_char del: url_unit.simps(2))
qed

lemma url_plus_char:
  "url_plus s = (case s of [] \<Rightarrow> None | c # cs \<Rightarrow> if url_char c then Some (dropWhile url_char cs) else None)"
  by (cases s) (simp_all add: url_plus_def url_unit_char url_many_dropWhile del: url_unit.simps(2))

lemma prefix_snoc_drop: "prefix (h @ [c]) s \<longleftrightarrow> prefix h s \<and> (\<exists>r. drop (length h) s = c # r)"
  by (auto simp: prefix_def)

lemma url_match_None: "url_match hs s = None \<longleftrightarrow> \<not> hit hs s"
proof (induction hs)
  case Nil
  show ?case by (simp add: hit_def)
next
  case (Cons h hs)
  have "hit (h # hs) s \<longleftrightarrow> (\<exists>c. url_char c \<and> prefix (h @ [c]) s) \<or> hit hs s"
    by (auto simp: hit_def)
  moreover have "(\<exists>c. url_char c \<and> prefix (h @ [c]) s) \<longleftrightarrow>
      prefix h s \<and> url_plus (drop (length h) s) \<noteq> None"
    by (auto simp: prefix_snoc_drop url_plus_char split: list.splits)
  ultimately show ?case using Cons by (auto split: option.splits)
qed

lemma url_match_Some:
  "url_match hs s = Some r \<Longrightarrow> \<exists>h\<in>set hs. \<exists>c. url_char c \<and> prefix (h @ [c]) s \<and>
      r = dropWhile url_char (drop (Suc (length h)) s)"
proof (induction hs)
  case Nil
  then show ?case by simp
next
  case (Cons h hs)
  show ?case
  proof (cases "prefix h s \<and> url_plus (drop (length h) s) \<noteq> None")
    case True
    then obtain c cs where d: "drop (length h) s = c # cs" "url_char c"
      by (auto simp: url_plus_char split: list.splits if_splits)
    then have r: "r = dropWhile url_char cs" using Cons.prems True
      by (auto simp: url_plus_char)
    have "drop (Suc (length h)) s = cs" using d(1)
      by (metis drop_Suc list.sel(3) tl_drop)
    then show ?thesis using True d r by (auto simp: prefix_snoc_drop)
  next
    case False
    then have "url_match hs s = Some r" using Cons.prems by (auto split: option.splits if_splits)
    then show ?thesis using Cons.IH by auto
  qed
qed

lemma url_match_suffix: "url_match hs s = Some r \<Longrightarrow> suffix r s \<and> length r < length s"
proof -
  assume "url_match hs s = Some r"
  then obtain h c where p: "prefix (h @ [c]) s" and r: "r = dropWhile url_char (drop (Suc (length h)) s)"
    using url_match_Some by blast
  have "suffix r (drop (Suc (length h)) s)" unfolding r by (rule suffix_dropWhile)
  then have 1: "suffix r s" using suffix_drop suffix_order.order_trans by blast
  have "length s > length h" using p by (auto simp: prefix_def)
  then have "length (drop (Suc (length h)) s) < length s" by simp
  moreover have "length r \<le> length (drop (Suc (length h)) s)" unfolding r by (rule length_dropWhile_le)
  ultimately show ?thesis using 1 by simp
qed

lemma url_match_stop: "url_match hs s = Some r \<Longrightarrow> takeWhile url_char r = []"
  by (drule url_match_Some) (auto simp: takeWhile_eq_Nil_iff dest: hd_dropWhile)

lemma sub_skip_drop: "n \<le> length s \<Longrightarrow> sub_skip hs n s = sub_skip hs 0 (drop n s)"
proof (induction s arbitrary: n)
  case Nil
  then show ?case by simp
next
  case (Cons c cs)
  then show ?case by (cases n) simp_all
qed

lemma re_sub_url_Nil: "re_sub_url hs [] = []"
  by (simp add: re_sub_url_def)

lemma re_sub_url_Cons:
  "re_sub_url hs (c # cs) =
     (case url_match hs (c # cs) of Some r \<Rightarrow> re_sub_url hs r | None \<Rightarrow> c # re_sub_url hs cs)"
proof (cases "url_match hs (c # cs)")
  case None
  then show ?thesis by (simp add: re_sub_url_def)
next
  case (Some r)
  then have s: "suffix r (c # cs)" "length r < length (c # cs)" using url_match_suffix by blast+
  then have "suffix r cs" by (auto simp: suffix_Cons)
  then have "drop (length cs - length r) cs = r" by (auto simp: suffix_def)
  moreover have "sub_skip hs (length cs - length r) cs = sub_skip hs 0 (drop (length cs - length r) cs)"
    by (rule sub_skip_drop) simp
  ultimately show ?thesis using Some by (simp add: re_sub_url_def)
qed


lemma prefix_takeWhile_all:
  "prefix m s \<Longrightarrow> \<forall>x\<in>set m. P x \<Longrightarrow> prefix m (takeWhile P s)"
  by (auto simp: prefix_def)

lemma re_sub_run:
  "prefix (takeWhile url_char (re_sub_url hs s)) (takeWhile url_char s)"
proof (induction s rule: length_induct)
  case (1 s)
  show ?case
  proof (cases s)
    case Nil
    then show ?thesis by (simp add: re_sub_url_Nil)
  next
    case (Cons c cs)
    show ?thesis
    proof (cases "url_match hs (c # cs)")
      case None
      have "prefix (takeWhile url_char (re_sub_url hs cs)) (takeWhile url_char cs)"
        using 1 Cons by simp
      then show ?thesis using None Cons by (simp add: re_sub_url_Cons)
    next
      case (Some r)
      then have "length r < length s" using url_match_suffix Cons by blast
      then have "prefix (takeWhile url_char (re_sub_url hs r)) (takeWhile url_char r)"
        using 1 by blast
      then have "takeWhile url_char (re_sub_url hs r) = []"
        using url_match_stop [OF Some] by simp
      then show ?thesis using Some Cons by (simp add: re_sub_url_Cons)
    qed
  qed
qed

lemma re_sub_prefix_word:
  assumes "prefix m (c # re_sub_url hs cs)" and "\<forall>x\<in>set m. url_char x"
  shows "prefix m (c # cs)"
proof (cases m)
  case Nil
  then show ?thesis by simp
next
  case (Cons a m')
  then have a: "a = c" "prefix m' (re_sub_url hs cs)" "\<forall>x\<in>set m'. url_char x"
    using assms by auto
  then have "prefix m' (takeWhile url_char (re_sub_url hs cs))"
    by (simp add: prefix_takeWhile_all)
  then have "prefix m' (takeWhile url_char cs)"
    using re_sub_run prefix_order.order_trans by blast
  then have "prefix m' cs"
    using takeWhile_is_prefix prefix_order.order_trans by blast
  then show ?thesis using Cons a by simp
qed

lemma hit_word: "heads_ok hs \<Longrightarrow> hit hs s \<longleftrightarrow>
    (\<exists>h\<in>set hs. \<exists>c. url_char c \<and> (\<forall>x\<in>set (h @ [c]). url_char x) \<and> prefix (h @ [c]) s)"
  by (auto simp: hit_def heads_ok_def)

lemma re_sub_no_match:
  assumes "heads_ok hs"
  shows "\<not> re_search_url hs (re_sub_url hs s)"
proof (induction s rule: length_induct)
  case (1 s)
  show ?case
  proof (cases s)
    case Nil
    then show ?thesis by (simp add: re_sub_url_Nil)
  next
    case (Cons c cs)
    show ?thesis
    proof (cases "url_match hs (c # cs)")
      case None
      have ih: "\<not> re_search_url hs (re_sub_url hs cs)" using 1 Cons by simp
      have "\<not> hit hs (c # re_sub_url hs cs)"
      proof
        assume "hit hs (c # re_sub_url hs cs)"
        then obtain h x where h: "h \<in> set hs" "url_char x" "\<forall>y\<in>set (h @ [x]). url_char y"
            "prefix (h @ [x]) (c # re_sub_url hs cs)"
          using hit_word [OF assms] by blast
        then have "prefix (h @ [x]) (c # cs)" using re_sub_prefix_word by blast
        then have "hit hs (c # cs)" using h by (auto simp: hit_def)
        then show False using None url_match_None by blast
      qed
      moreover have "re_sub_url hs s = c # re_sub_url hs cs"
        using None Cons by (simp add: re_sub_url_Cons)
      ultimately show ?thesis using ih by (simp add: url_match_None)
    next
      case (Some r)
      then have "length r < length s" using url_match_suffix Cons by blast
      then have "\<not> re_search_url hs (re_sub_url hs r)" using 1 by blast
      then show ?thesis using Some Cons by (simp add: re_sub_url_Cons)
    qed
  qed
qed

lemma re_sub_sublist_word:
  assumes "\<forall>x\<in>set m. url_char x"
  shows "sublist m (re_sub_url hs s) \<Longrightarrow> sublist m s"
proof (induction s rule: length_induct)
  case (1 s)
  show ?case
  proof (cases s)
    case Nil
    then show ?thesis using 1 by (simp add: re_sub_url_Nil)
  next
    case (Cons c cs)
    show ?thesis
    proof (cases "url_match hs (c # cs)")
      case None
      then have "sublist m (c # re_sub_url hs cs)" using 1(2) Cons by (simp add: re_sub_url_Cons)
      then consider "prefix m (c # re_sub_url hs cs)" | "sublist m (re_sub_url hs cs)"
        by (auto simp: sublist_Cons_right)
      then show ?thesis
      proof cases
        case 1
        then have "prefix m (c # cs)" using assms re_sub_prefix_word by blast
        then show ?thesis using Cons by (simp add: sublist_Cons_right)
      next
        case 2
        then have "sublist m cs" using "1.IH" Cons by simp
        then show ?thesis using Cons by (simp add: sublist_Cons_right)
      qed
    next
      case (Some r)
      then have r: "length r < length s" "suffix r s" using url_match_suffix Cons by blast+
      have "sublist m (re_sub_url hs r)" using 1(2) Some Cons by (simp add: re_sub_url_Cons)
      then have "sublist m r" using 1(1) r by blast
      moreover have "sublist r s" using r(2) by (rule suffix_imp_sublist)
      ultimately show ?thesis by (rule sublist_order.order_trans)
    qed
  qed
qed

lemma re_search_sublist:
  "re_search_url hs s \<longleftrightarrow> (\<exists>h\<in>set hs. \<exists>c. url_char c \<and> sublist (h @ [c]) s)"
proof (induction s)
  case Nil
  show ?case by simp
next
  case (Cons a s)
  have "url_match hs (a # s) \<noteq> None \<longleftrightarrow> (\<exists>h\<in>set hs. \<exists>c. url_char c \<and> prefix (h @ [c]) (a # s))"
    by (simp add: url_match_None hit_def)
  moreover have "\<And>h c. sublist (h @ [c]) (a # s) \<longleftrightarrow>
      prefix (h @ [c]) (a # s) \<or> sublist (h @ [c]) s"
    by (rule sublist_Cons_right)
  ultimately show ?case using Cons by (simp del: url_match.simps) blast
qed

lemma strip_sublist: "sublist (strip s) s"
proof -
  let ?d = "dropWhile isspace s"
  have "suffix (dropWhile isspace (rev ?d)) (rev ?d)" by (rule suffix_dropWhile)
  then have "prefix (rev (dropWhile isspace (rev ?d))) (rev (rev ?d))"
    by (simp only: suffix_to_prefix)
  then have "sublist (strip s) ?d" by (simp add: strip_def prefix_imp_sublist)
  moreover have "sublist ?d s" by (rule suffix_imp_sublist) (rule suffix_dropWhile)
  ultimately show ?thesis by (rule sublist_order.order_trans)
qed

lemma split_from_words:
  "\<forall>c\<in>set w0. \<not> isspace c \<Longrightarrow> w \<in> set (split_from w0 s) \<Longrightarrow>
     w \<noteq> [] \<and> (\<forall>c\<in>set w. \<not> isspace c) \<and> sublist w (w0 @ s)"
proof (induction s arbitrary: w0)
  case Nil
  then show ?case by (auto split: if_splits)
next
  case (Cons c cs)
  show ?case
  proof (cases "isspace c")
    case True
    then consider "w = w0" "w0 \<noteq> []" | "w \<in> set (split_from [] cs)"
      using Cons.prems(2) by (auto split: if_splits)
    then show ?thesis
    proof cases
      case 1
      then show ?thesis using Cons.prems(1) by (simp add: sublist_append_rightI)
    next
      case 2
      then have "w \<noteq> [] \<and> (\<forall>c\<in>set w. \<not> isspace c) \<and> sublist w ([] @ cs)"
        by (intro Cons.IH) simp_all
      moreover have "sublist cs ((w0 @ [c]) @ cs)" by (rule sublist_append_leftI)
      then have "sublist cs (w0 @ c # cs)" by simp
      ultimately show ?thesis using sublist_order.order_trans [of w cs "w0 @ c # cs"] by simp
    qed
  next
    case False
    then have a: "w \<in> set (split_from (w0 @ [c]) cs)" using Cons.prems(2) by simp
    have b: "\<forall>x\<in>set (w0 @ [c]). \<not> isspace x" using False Cons.prems(1) by simp
    have "w \<noteq> [] \<and> (\<forall>c\<in>set w. \<not> isspace c) \<and> sublist w ((w0 @ [c]) @ cs)"
      using b a by (rule Cons.IH)
    then show ?thesis by simp
  qed
qed

lemma split_words: "words_ok (split s)"
  using split_from_words [of "[]"] by (auto simp: words_ok_def split_def)

lemma split_sublist: "w \<in> set (split s) \<Longrightarrow> sublist w s"
  using split_from_words [of "[]" w s] by (simp add: split_def)

lemma prefix_sep:
  assumes "prefix m (x # b)" and "x \<notin> set m"
  shows "m = []"
  using assms by (cases m) auto

lemma sublist_sep:
  assumes "sublist m (a @ x # b)" and "x \<notin> set m"
  shows "sublist m a \<or> sublist m b"
proof -
  consider "sublist m a" | "sublist m (x # b)"
    | xs1 xs2 where "m = xs1 @ xs2" "suffix xs1 a" "prefix xs2 (x # b)"
    using assms(1) unfolding sublist_append by blast
  then show ?thesis
  proof cases
    case 1
    then show ?thesis by simp
  next
    case 2
    then have "prefix m (x # b) \<or> sublist m b" by (simp only: sublist_Cons_right)
    moreover have "prefix m (x # b) \<Longrightarrow> m = []" by (rule prefix_sep [OF _ assms(2)])
    ultimately show ?thesis by auto
  next
    case 3
    have "x \<notin> set xs2" using 3(1) assms(2) by simp
    with 3(3) have "xs2 = []" by (rule prefix_sep)
    then have "suffix m a" using 3 by simp
    then show ?thesis by (simp add: suffix_imp_sublist)
  qed
qed

lemma join_sublist:
  "x \<notin> set m \<Longrightarrow> m \<noteq> [] \<Longrightarrow> sublist m (join [x] ws) \<Longrightarrow> \<exists>w\<in>set ws. sublist m w"
proof (induction "[x]" ws rule: join.induct)
  case 1
  then show ?case by simp
next
  case (2 w)
  then show ?case by simp
next
  case (3 w v ws)
  then have "sublist m (w @ x # join [x] (v # ws))" by simp
  then have "sublist m w \<or> sublist m (join [x] (v # ws))"
    using 3(2) by (rule sublist_sep)
  then show ?case using 3 by auto
qed

lemma join_ends:
  "words_ok ws \<Longrightarrow> ws \<noteq> [] \<Longrightarrow>
     join sep ws \<noteq> [] \<and> \<not> isspace (hd (join sep ws)) \<and> \<not> isspace (last (join sep ws))"
proof (induction sep ws rule: join.induct)
  case (1 sep)
  then show ?case by simp
next
  case (2 sep w)
  then have "w \<noteq> []" "\<forall>c\<in>set w. \<not> isspace c" by (simp_all add: words_ok_def)
  then show ?case using hd_in_set [of w] last_in_set [of w] by simp
next
  case (3 sep w v ws)
  then have "words_ok (v # ws)" by (simp add: words_ok_def)
  then have "join sep (v # ws) \<noteq> [] \<and> \<not> isspace (last (join sep (v # ws)))" using 3 by simp
  moreover have "w \<noteq> [] \<and> \<not> isspace (hd w)"
    using 3(2) hd_in_set [of w] by (simp add: words_ok_def)
  ultimately show ?case by simp
qed

lemma strip_id: "s = [] \<or> (\<not> isspace (hd s) \<and> \<not> isspace (last s)) \<Longrightarrow> strip s = s"
proof (cases s)
  case Nil
  then show ?thesis by (simp add: strip_def)
next
  case (Cons a as)
  assume "s = [] \<or> (\<not> isspace (hd s) \<and> \<not> isspace (last s))"
  then have h: "\<not> isspace (hd s)" "\<not> isspace (last s)" using Cons by auto
  then have "dropWhile isspace s = s" using Cons by simp
  moreover have "dropWhile isspace (rev s) = rev s"
    using h(2) by (simp add: dropWhile_eq_self_iff hd_rev)
  ultimately show ?thesis by (simp add: strip_def)
qed

lemma strip_join: "words_ok ws \<Longrightarrow> strip (join sep ws) = join sep ws"
  by (cases "ws = []") (auto intro!: strip_id dest: join_ends)

lemma heads_ok_http: "heads_ok http_heads"
  by (simp add: heads_ok_def http_heads_def py_def url_char_def url_alpha_def url_digit_def
      url_punct_def url_paren_def)

lemma heads_ok_www: "heads_ok www_heads"
  by (simp add: heads_ok_def www_heads_def py_def url_char_def url_alpha_def url_digit_def
      url_punct_def url_paren_def)

lemma space_not_url: "\<not> url_char 32"
  by (simp add: url_char_def url_alpha_def url_digit_def url_punct_def url_paren_def)

lemma collapse_no_match:
  assumes "heads_ok hs" and "\<not> re_search_url hs t"
  shows "\<not> re_search_url hs (strip (join [32] (split t)))"
proof
  assume "re_search_url hs (strip (join [32] (split t)))"
  then obtain h c where h: "h \<in> set hs" "url_char c" "sublist (h @ [c]) (strip (join [32] (split t)))"
    by (auto simp: re_search_sublist)
  then have "sublist (h @ [c]) (join [32] (split t))"
    using strip_sublist sublist_order.order_trans [of "h @ [c]"] by blast
  moreover have "32 \<notin> set (h @ [c])"
    using assms(1) h(1,2) space_not_url by (auto simp: heads_ok_def)
  ultimately obtain w where "w \<in> set (split t)" "sublist (h @ [c]) w"
    using join_sublist [of 32 "h @ [c]" "split t"] by auto
  then have "sublist (h @ [c]) t"
    using split_sublist [of w t] sublist_order.order_trans [of "h @ [c]" w t] by blast
  then show False using assms(2) h by (auto simp: re_search_sublist)
qed

lemma sub_keeps_no_match:
  assumes "heads_ok hs'" and "\<not> re_search_url hs' t"
  shows "\<not> re_search_url hs' (re_sub_url hs t)"
proof
  assume "re_search_url hs' (re_sub_url hs t)"
  then obtain h c where h: "h \<in> set hs'" "url_char c" "sublist (h @ [c]) (re_sub_url hs t)"
    by (auto simp: re_search_sublist)
  moreover have "\<forall>x\<in>set (h @ [c]). url_char x" using assms(1) h by (auto simp: heads_ok_def)
  ultimately have "sublist (h @ [c]) t" using re_sub_sublist_word by blast
  then show False using assms(2) h by (auto simp: re_search_sublist)
qed

lemma clean_no_url:
  "\<not> re_search_url http_heads (clean_comment_text t) \<and>
   \<not> re_search_url www_heads (clean_comment_text t)"
proof (cases "t = []")
  case True
  then show ?thesis by (simp add: clean_comment_text_def)
next
  case False
  let ?a = "re_sub_url http_heads t"
  let ?b = "re_sub_url www_heads ?a"
  have a: "\<not> re_search_url http_heads ?a" using heads_ok_http by (rule re_sub_no_match)
  have "\<not> re_search_url http_heads ?b" using heads_ok_http a by (rule sub_keeps_no_match)
  moreover have "\<not> re_search_url www_heads ?b" using heads_ok_www by (rule re_sub_no_match)
  moreover have "py '' '' = [32]" by (simp add: py_def)
  ultimately show ?thesis using False heads_ok_http heads_ok_www
    by (simp add: clean_comment_text_def collapse_no_match)
qed

lemma clean_words: "\<exists>ws. words_ok ws \<and> clean_comment_text t = join (py '' '') ws"
proof (cases "t = []")
  case True
  have "words_ok [] \<and> clean_comment_text t = join (py '' '') []"
    using True by (simp add: clean_comment_text_def words_ok_def)
  then show ?thesis by blast
next
  case False
  let ?ws = "split (re_sub_url www_heads (re_sub_url http_heads t))"
  have "words_ok ?ws" by (rule split_words)
  moreover from this have "clean_comment_text t = join (py '' '') ?ws"
    using False by (simp add: clean_comment_text_def strip_join)
  ultimately show ?thesis by blast
qed

section \<open>The cleaned comment text\<close>

lemma single_comment_text:
  "single_comment env element info s = Inr (Some r) \<Longrightarrow>
     \<exists>raw. comment_text r = clean_comment_text raw \<and> 2 \<le> length (comment_text r)"
  by (auto simp: single_comment_def Let_def split: prod.splits sum.splits if_splits)

lemma extract_single_comment_Some:
  "extract_single_comment env element info s = Some r \<longleftrightarrow>
     single_comment env element info s = Inr (Some r)"
  by (simp add: extract_single_comment_def split: sum.splits)

lemma py_Nil: "py [] = []"
  by (simp add: py_def)

lemma py_Cons: "py (c # cs) = of_char c # py cs"
  by (simp add: py_def)

lemma link_node_record: "extract_single_comment link_node 0 no_post 0 = Some link_record"
  by (simp add: extract_single_comment_def single_comment_def comment_author_def comment_body_def
      comment_time_def comment_likes_def comment_replies_def link_node_def synthetic_env_def
      first_of_def author_selectors_def button_labels_def no_post_def backslash_def
      clean_comment_text_def py_def re_sub_url_def http_heads_def www_heads_def
      url_plus_def url_many.simps url_alpha_def url_digit_def url_punct_def url_paren_def
      hexdigit_def split_def isspace_def strip_def link_record_def)

text \<open>
  C1. Whatever the node and whatever the browser answers, a record that
  \<^verbatim>\<open>_extract_single_comment\<close> returns has a \<open>comment_text\<close> of at least 2 characters in
  which neither URL pattern matches anywhere, and which consists of whitespace-free words
  joined by single spaces. The cleaning step turns the body of scenario C,
  \<^verbatim>\<open>Check this out http://example.com/x?y=1 thanks\<close>, into \<^verbatim>\<open>Check this out thanks\<close>.
\<close>

theorem extracted_text_is_clean:
  "(extract_single_comment env element info s = Some r \<longrightarrow>
      2 \<le> length (comment_text r) \<and>
      \<not> re_search_url http_heads (comment_text r) \<and>
      \<not> re_search_url www_heads (comment_text r) \<and>
      (\<exists>ws. words_ok ws \<and> comment_text r = join (py '' '') ws)) \<and>
   clean_comment_text (py ''Check this out http://example.com/x?y=1 thanks'') =
     py ''Check this out thanks''"
proof (intro conjI impI)
  assume "extract_single_comment env element info s = Some r"
  then have "single_comment env element info s = Inr (Some r)"
    by (simp only: extract_single_comment_Some)
  then have "\<exists>raw. comment_text r = clean_comment_text raw \<and> 2 \<le> length (comment_text r)"
    by (rule single_comment_text)
  then obtain raw where raw: "comment_text r = clean_comment_text raw"
    and len: "2 \<le> length (comment_text r)"
    by blast
  show "2 \<le> length (comment_text r)" by (rule len)
  show "\<not> re_search_url http_heads (comment_text r)" unfolding raw using clean_no_url by blast
  show "\<not> re_search_url www_heads (comment_text r)" unfolding raw using clean_no_url by blast
  show "\<exists>ws. words_ok ws \<and> comment_text r = join (py '' '') ws" unfolding raw by (rule clean_words)
next
  show "clean_comment_text (py ''Check this out http://example.com/x?y=1 thanks'') =
     py ''Check this out thanks''"
    by (simp add: clean_comment_text_def py_def re_sub_url_def http_heads_def www_heads_def
        url_plus_def url_many.simps url_alpha_def url_digit_def url_punct_def url_paren_def
        hexdigit_def split_def isspace_def strip_def)
qed

text \<open>
  The node of scenario C, whose only text element holds that body, gives a record with the
  cleaned text.
\<close>

theorem extracted_text_is_clean_witness:
  "extract_single_comment link_node 0 no_post 0 = Some link_record \<and>
   comment_text link_record = py ''Check this out thanks'' \<and>
   2 \<le> length (comment_text link_record) \<and>
   \<not> re_search_url http_heads (comment_text link_record) \<and>
   \<not> re_search_url www_heads (comment_text link_record)"
  using extracted_text_is_clean [of link_node 0 no_post 0 link_record] link_node_record
  by (simp add: link_record_def)


section \<open>Delays and scrolls\<close>

lemma py_random_range: "0 \<le> fst (py_random env s) \<and> fst (py_random env s) < 1"
  by (cases "random_random env s") (simp add: py_random_def)

lemma uniform_fst: "fst (uniform env a b s) = a + (b - a) * fst (py_random env s)"
  by (cases "py_random env s") (simp add: uniform_def)

lemma uniform_lower: "a \<le> b \<Longrightarrow> a \<le> fst (uniform env a b s)"
proof -
  assume "a \<le> b"
  moreover have "0 \<le> fst (py_random env s)" using py_random_range [of env s] by simp
  ultimately have "0 \<le> (b - a) * fst (py_random env s)" by simp
  then show ?thesis by (simp add: uniform_fst)
qed



lemma random_delay_returns:
  assumes "0 < a" and "a \<le> b"
  shows "fst (random_delay env cfg (Some a) (Some b) s) = None"
proof -
  have "a \<le> fst (uniform env a b s)" using assms(2) by (rule uniform_lower)
  then have "\<not> fst (uniform env a b s) < 0" using assms(1) by simp
  moreover have "b \<noteq> 0" "a \<noteq> 0" using assms by auto
  ultimately show ?thesis
    by (cases "uniform env a b s") (simp add: random_delay_def sleep_def)
qed

lemma random_delay_None:
  assumes "0 < a" and "a \<le> b"
  shows "random_delay env cfg (Some a) (Some b) s =
     (None, snd (random_delay env cfg (Some a) (Some b) s))"
  using random_delay_returns [OF assms, of env cfg s] by (simp add: prod_eq_iff)

section \<open>The scroll loop\<close>

lemma scroll_loop_done:
  "\<not> n < MAX_SCROLL_ATTEMPTS cfg \<Longrightarrow> scroll_loop env cfg max_comments n s = (None, n, s)"
  by (subst scroll_loop.simps) simp

lemma scroll_loop_round:
  assumes "n < MAX_SCROLL_ATTEMPTS cfg"
  shows "scroll_loop env cfg max_comments n s =
     (case scroll_round env cfg s of
        (Some e, clicked, s1) \<Rightarrow> (Some e, n, s1)
      | (None, clicked, s1) \<Rightarrow>
          if target_reached env max_comments s1 \<or> (\<not> clicked \<and> 5 < n + 1)
          then (None, n + 1, s1)
          else scroll_loop env cfg max_comments (n + 1) s1)"
proof -
  obtain x s1 where h: "human_like_scroll env cfg 600 s = (x, s1)"
    by (cases "human_like_scroll env cfg 600 s")
  obtain y s2 where d: "random_delay env cfg (Some 2) (Some 3) s1 = (y, s2)"
    by (cases "random_delay env cfg (Some 2) (Some 3) s1")
  obtain c s3 where r: "click_view_more_buttons env cfg s2 = (c, s3)"
    by (cases "click_view_more_buttons env cfg s2")
  show ?thesis
    using assms h d r
    by (subst scroll_loop.simps) (cases x; cases y; simp add: scroll_round_def)
qed

lemma scroll_loop_bound:
  "scroll_loop env cfg max_comments n s = (e, m, s1) \<Longrightarrow>
     n \<le> m \<and> (e = None \<longrightarrow> m \<le> max n (MAX_SCROLL_ATTEMPTS cfg)) \<and>
     (e \<noteq> None \<longrightarrow> m < MAX_SCROLL_ATTEMPTS cfg)"
proof (induction "nat (MAX_SCROLL_ATTEMPTS cfg - n)" arbitrary: n s)
  case 0
  then have "\<not> n < MAX_SCROLL_ATTEMPTS cfg" by simp
  then have "scroll_loop env cfg max_comments n s = (None, n, s)" by (rule scroll_loop_done)
  then show ?case using "0.prems" by simp
next
  case (Suc d)
  then have lt: "n < MAX_SCROLL_ATTEMPTS cfg" by simp
  obtain x c s2 where r: "scroll_round env cfg s = (x, c, s2)"
    by (cases "scroll_round env cfg s")
  show ?case
  proof (cases x)
    case (Some a)
    then show ?thesis using Suc.prems lt r by (simp add: scroll_loop_round)
  next
    case None
    show ?thesis
    proof (cases "target_reached env max_comments s2 \<or> (\<not> c \<and> 5 < n + 1)")
      case True
      then show ?thesis using Suc.prems lt r None by (auto simp: scroll_loop_round)
    next
      case False
      then have "scroll_loop env cfg max_comments (n + 1) s2 = (e, m, s1)"
        using Suc.prems lt r None by (auto simp: scroll_loop_round split: if_splits)
      moreover have "d = nat (MAX_SCROLL_ATTEMPTS cfg - (n + 1))" using Suc.hyps(2) by simp
      ultimately have "n + 1 \<le> m \<and> (e = None \<longrightarrow> m \<le> max (n + 1) (MAX_SCROLL_ATTEMPTS cfg)) \<and>
          (e \<noteq> None \<longrightarrow> m < MAX_SCROLL_ATTEMPTS cfg)"
        using Suc.hyps(1) by blast
      then show ?thesis using lt by auto
    qed
  qed
qed

lemma scroll_loop_least:
  assumes "int j < MAX_SCROLL_ATTEMPTS cfg"
  shows "scroll_loop env cfg max_comments (int j) (page_after env cfg j s) =
     (let k = (LEAST k. j < k \<and> ends_at env cfg max_comments s k)
      in (fst (scroll_round env cfg (page_after env cfg (k - 1) s)),
          (if raises_in env cfg s k then int k - 1 else int k),
          page_after env cfg k s))"
  using assms
proof (induction "nat (MAX_SCROLL_ATTEMPTS cfg) - j" arbitrary: j)
  case 0
  then show ?case by simp
next
  case (Suc d)
  let ?s = "page_after env cfg j s"
  let ?P = "\<lambda>k. j < k \<and> ends_at env cfg max_comments s k"
  obtain x c s2 where r: "scroll_round env cfg ?s = (x, c, s2)"
    by (cases "scroll_round env cfg ?s")
  have next_page: "page_after env cfg (Suc j) s = s2" using r by simp
  have raises: "raises_in env cfg s (Suc j) \<longleftrightarrow> x \<noteq> None" using r by (simp add: raises_in_def)
  have clicked: "clicked_in env cfg s (Suc j) \<longleftrightarrow> c" using r by (simp add: clicked_in_def)
  show ?case
  proof (cases "ends_at env cfg max_comments s (Suc j)")
    case True
    have least: "(LEAST k. ?P k) = Suc j"
      by (rule Least_equality) (use True in auto)
    show ?thesis
    proof (cases x)
      case (Some a)
      then show ?thesis
        using Suc.prems r least raises next_page by (simp add: scroll_loop_round)
    next
      case None
      then have st: "stops_at env cfg max_comments s (Suc j)"
        using True raises by (simp add: ends_at_def)
      show ?thesis
      proof (cases "target_reached env max_comments s2 \<or> (\<not> c \<and> 5 < int j + 1)")
        case True
        then show ?thesis
          using Suc.prems r None least raises next_page by (simp add: scroll_loop_round)
      next
        case False
        then have "MAX_SCROLL_ATTEMPTS cfg \<le> int (Suc j)"
          using st clicked next_page by (auto simp: stops_at_def)
        then have "scroll_loop env cfg max_comments (int j + 1) s2 = (None, int j + 1, s2)"
          by (intro scroll_loop_done) simp
        then show ?thesis
          using Suc.prems r None False least raises next_page by (simp add: scroll_loop_round)
      qed
    qed
  next
    case False
    then have x: "x = None" using raises by (simp add: ends_at_def)
    have f: "\<not> target_reached env max_comments s2" "\<not> (\<not> c \<and> 5 < int j + 1)"
      "int (Suc j) < MAX_SCROLL_ATTEMPTS cfg"
      using False clicked next_page by (auto simp: ends_at_def stops_at_def)
    have eq: "?P = (\<lambda>k. Suc j < k \<and> ends_at env cfg max_comments s k)"
    proof (rule ext)
      fix k
      have "j < k \<and> k \<noteq> Suc j \<longleftrightarrow> Suc j < k" by arith
      then show "(j < k \<and> ends_at env cfg max_comments s k) =
          (Suc j < k \<and> ends_at env cfg max_comments s k)"
        using False by metis
    qed
    have "d = nat (MAX_SCROLL_ATTEMPTS cfg) - Suc j" using Suc.hyps(2) by simp
    then have ih: "scroll_loop env cfg max_comments (int (Suc j)) (page_after env cfg (Suc j) s) =
       (let k = (LEAST k. Suc j < k \<and> ends_at env cfg max_comments s k)
        in (fst (scroll_round env cfg (page_after env cfg (k - 1) s)),
            (if raises_in env cfg s k then int k - 1 else int k),
            page_after env cfg k s))"
      using f(3) by (rule Suc.hyps(1))
    have "scroll_loop env cfg max_comments (int j) ?s =
        scroll_loop env cfg max_comments (int j + 1) s2"
      using Suc.prems r x f(1,2) by (auto simp: scroll_loop_round)
    moreover have "int j + 1 = int (Suc j)" by simp
    ultimately show ?thesis using ih next_page by (simp only: eq)
  qed
qed

lemma scroll_loop_first_end:
  assumes "0 < MAX_SCROLL_ATTEMPTS cfg"
  shows "scroll_loop env cfg max_comments 0 s =
     (let k = (LEAST k. 0 < k \<and> ends_at env cfg max_comments s k)
      in (fst (scroll_round env cfg (page_after env cfg (k - 1) s)),
          (if raises_in env cfg s k then int k - 1 else int k),
          page_after env cfg k s))"
  using scroll_loop_least [of 0 cfg env max_comments s] assms by simp



lemmas fixture_defs = synthetic_env_def first_of_def default_config_def

lemma default_max_scrolls: "MAX_SCROLL_ATTEMPTS default_config = 10"
  by (simp add: default_config_def)










lemma default_pause: "SCROLL_PAUSE_TIME default_config = 2"
  by (simp add: default_config_def)




lemma raising_delay:
  "0 < a \<Longrightarrow> random_delay raising_feed cfg (Some a) (Some b) s = (None, s)"
  by (simp add: random_delay_def sleep_def uniform_def py_random_def fixture_defs feed_page_def
      raising_feed_def)

lemma raising_click: "click_view_more_buttons raising_feed cfg s = (False, s)"
  by (simp add: click_view_more_buttons_def view_more_selectors_def fixture_defs feed_page_def
      raising_feed_def)

lemma raising_randint: "randint raising_feed 3 5 s = (3, s)"
  by (simp add: randint_def fixture_defs feed_page_def raising_feed_def)

lemma raising_uniform: "uniform raising_feed a b s = (a, s)"
  by (simp add: uniform_def py_random_def fixture_defs feed_page_def raising_feed_def)

lemma raising_sleep: "0 \<le> x \<Longrightarrow> sleep raising_feed x s = (None, s)"
  by (simp add: sleep_def fixture_defs feed_page_def raising_feed_def)

lemma raising_evaluate:
  "page_evaluate raising_feed amount selector s =
     (if s < 3 then (None, s + 1) else (Some PlaywrightError, s + 1))"
  by (simp add: fixture_defs feed_page_def raising_feed_def)

lemma raising_scroll_0: "human_like_scroll raising_feed default_config 600 0 = (None, 3)"
  by (simp add: human_like_scroll_def raising_randint numeral_3_eq_3 raising_evaluate
      raising_uniform raising_sleep default_pause)

lemma raising_scroll_3:
  "human_like_scroll raising_feed default_config 600 3 = (Some PlaywrightError, 4)"
  by (simp add: human_like_scroll_def raising_randint numeral_3_eq_3 raising_evaluate)

lemma raising_round_1: "scroll_round raising_feed default_config 0 = (None, False, 3)"
  by (simp add: scroll_round_def raising_scroll_0 raising_delay raising_click)

lemma raising_round_2:
  "scroll_round raising_feed default_config 3 = (Some PlaywrightError, False, 4)"
  by (simp add: scroll_round_def raising_scroll_3)

lemma raising_loop:
  "scroll_loop raising_feed default_config max_comments 0 0 =
     (if target_reached raising_feed max_comments 3 then (None, 1, 3)
      else (Some PlaywrightError, 1, 4))"
  by (simp add: scroll_loop_round default_max_scrolls raising_round_1 raising_round_2)

lemma raising_count: "count_visible_comments raising_feed s = 2 * (s div 3)"
  by (simp add: count_visible_comments_def count_selectors_def fixture_defs feed_page_def
      raising_feed_def)










section \<open>Evaluation of single comments\<close>

lemmas comment_defs =
  extract_single_comment_def single_comment_def comment_author_def comment_body_def
  comment_time_def comment_likes_def comment_replies_def author_selectors_def button_labels_def
  backslash_def clean_comment_text_def py_def re_sub_url_def http_heads_def www_heads_def
  url_plus_def url_many.simps url_alpha_def url_digit_def url_punct_def url_paren_def
  hexdigit_def split_def isspace_def strip_def

lemmas comments_page_defs = comments_page_def synthetic_env_def first_of_def

lemma comments_page_0:
  "extract_single_comment (comments_page script) 0 no_post s =
     Some (plain_record (py ''Alice'') (py ''/user/alice'') (py ''Great photo'') None)"
  by (simp add: comment_defs comments_page_defs no_post_def plain_record_def or_empty_def)

lemma comments_page_1:
  "extract_single_comment (comments_page script) (Suc 0) no_post s =
     Some (plain_record (py ''Unknown User'') [] (py ''Nice post!!'') None)"
  by (simp add: comment_defs comments_page_defs no_post_def plain_record_def or_empty_def)

lemma comments_page_2:
  "extract_single_comment (comments_page script) 2 no_post s =
     Some (plain_record (py ''Bob'') (py ''/user/bob'') (py ''Thanks a lot'') None)"
  by (simp add: comment_defs comments_page_defs no_post_def plain_record_def or_empty_def)

section \<open>A cap of zero\<close>

lemma target_reached_zero: "target_reached env (Some 0) s = False"
  by (simp add: target_reached_def)

lemma target_reached_None: "target_reached env None s = False"
  by (simp add: target_reached_def)

lemma scroll_loop_zero_cap:
  "scroll_loop env cfg (Some 0) n s = scroll_loop env cfg None n s"
proof (induction "nat (MAX_SCROLL_ATTEMPTS cfg - n)" arbitrary: n s)
  case 0
  then have "\<not> n < MAX_SCROLL_ATTEMPTS cfg" by simp
  then show ?case by (simp add: scroll_loop_done)
next
  case (Suc d)
  then have lt: "n < MAX_SCROLL_ATTEMPTS cfg" by simp
  have "d = nat (MAX_SCROLL_ATTEMPTS cfg - (n + 1))" using Suc.hyps(2) by simp
  then have ih: "scroll_loop env cfg (Some 0) (n + 1) s2 = scroll_loop env cfg None (n + 1) s2"
    for s2 by (rule Suc.hyps(1))
  obtain x c s2 where r: "scroll_round env cfg s = (x, c, s2)"
    by (cases "scroll_round env cfg s")
  show ?case
    using lt r ih [of s2]
    by (cases x) (simp_all add: scroll_loop_round target_reached_zero target_reached_None)
qed

lemma ends_at_zero_cap:
  "ends_at env cfg (Some 0) s k \<longleftrightarrow>
     raises_in env cfg s k \<or> (\<not> clicked_in env cfg s k \<and> 5 < k) \<or>
     MAX_SCROLL_ATTEMPTS cfg \<le> int k"
  by (simp add: ends_at_def stops_at_def target_reached_zero)

lemma expand_all_comments_loop:
  "expand_all_comments env cfg max_comments s =
     (let s1 = snd (open_comment_section env cfg s);
          s2 = snd (random_delay env cfg (Some 1) (Some 2) s1)
      in case scroll_loop env cfg max_comments 0 s2 of
           (Some e, n, s3) \<Rightarrow> s3
         | (None, n, s3) \<Rightarrow> expand_see_more_in_comments env cfg (expand_all_replies env cfg s3))"
proof -
  obtain opened s1 where o: "open_comment_section env cfg s = (opened, s1)"
    by (cases "open_comment_section env cfg s")
  have "random_delay env cfg (Some 1) (Some 2) s1 =
      (None, snd (random_delay env cfg (Some 1) (Some 2) s1))"
    by (rule random_delay_None) simp_all
  then obtain s2 where d: "random_delay env cfg (Some 1) (Some 2) s1 = (None, s2)" by blast
  show ?thesis using o d by (simp add: expand_all_comments_def)
qed

lemma extract_comments_elements:
  "extract_comments env cfg info s =
     (let s1 = snd (random_delay env cfg (Some 1) (Some 2) s)
      in case comment_elements_from env comment_selectors s1 of
           Inl e \<Rightarrow> ([], s1)
         | Inr elements \<Rightarrow> (extract_each env elements 0 info s1, s1))"
proof -
  have "random_delay env cfg (Some 1) (Some 2) s =
      (None, snd (random_delay env cfg (Some 1) (Some 2) s))"
    by (rule random_delay_None) simp_all
  then obtain s1 where d: "random_delay env cfg (Some 1) (Some 2) s = (None, s1)" by blast
  show ?thesis using d by (simp add: extract_comments_def)
qed

lemma crawl_post_reached:
  assumes "page_goto env url (REQUEST_TIMEOUT cfg) s = (None, s1)"
  shows "crawl_post env cfg url max_comments s =
     (let s2 = snd (random_delay env cfg (Some 3) (Some 5) s1);
          s3 = expand_all_comments env cfg max_comments s2;
          s4 = snd (random_delay env cfg (Some 1) (Some 2) s3)
      in case comment_elements_from env comment_selectors s4 of
           Inl e \<Rightarrow> (Inr [], s4)
         | Inr elements \<Rightarrow>
             (Inr (extract_each env elements 0 (extract_post_info env s2) s4), s4))"
proof -
  have "random_delay env cfg (Some 3) (Some 5) s1 =
      (None, snd (random_delay env cfg (Some 3) (Some 5) s1))"
    by (rule random_delay_None) simp_all
  then obtain s2 where d: "random_delay env cfg (Some 3) (Some 5) s1 = (None, s2)" by blast
  show ?thesis
    using assms d
    by (simp add: crawl_post_def extract_comments_elements Let_def split: sum.splits)
qed

lemma crawl_post_comments_reached:
  assumes "page_goto env url (REQUEST_TIMEOUT cfg) s = (None, s1)"
  shows "crawl_post_comments env cfg url max_comments s =
     (let s2 = snd (random_delay env cfg (Some 3) (Some 5) s1);
          s3 = expand_all_comments env cfg max_comments s2;
          s4 = snd (random_delay env cfg (Some 1) (Some 2) s3)
      in case comment_elements_from env comment_selectors s4 of
           Inl e \<Rightarrow> (Inr [], s4)
         | Inr elements \<Rightarrow>
             (Inr (extract_each env elements 0 (extract_post_info env s2) s4), s4))"
  by (simp add: crawl_post_comments_def crawl_post_reached [OF assms] Let_def split: sum.splits)

lemma crawl_post_comments_goto_raises:
  "page_goto env url (REQUEST_TIMEOUT cfg) s = (Some e, s1) \<Longrightarrow>
     crawl_post_comments env cfg url max_comments s = (Inr [], s1)"
  by (simp add: crawl_post_comments_def crawl_post_def)

lemma expand_all_comments_zero_cap:
  "expand_all_comments env cfg (Some 0) s = expand_all_comments env cfg None s"
  by (simp add: expand_all_comments_loop scroll_loop_zero_cap)

lemma crawl_post_comments_zero_cap:
  "crawl_post_comments env cfg url (Some 0) s = crawl_post_comments env cfg url None s"
proof (cases "page_goto env url (REQUEST_TIMEOUT cfg) s")
  case (Pair x s1)
  show ?thesis
  proof (cases x)
    case None
    then show ?thesis using Pair
      by (simp add: crawl_post_comments_reached expand_all_comments_zero_cap)
  next
    case (Some e)
    then show ?thesis using Pair by (simp add: crawl_post_comments_goto_raises)
  qed
qed

lemma extract_each_length:
  "length (extract_each env elements idx info s) =
     length (filter (\<lambda>element. extract_single_comment env element info s \<noteq> None) elements)"
  by (induction elements arbitrary: idx) (auto split: option.splits)

section \<open>The synthetic post\<close>

lemma comments_goto:
  "page_goto (comments_page script) url timeout s =
     (if url = py ''bad'' then (Some PlaywrightTimeout, s) else (None, s))"
  by (simp add: comments_page_defs)

lemma comments_delay:
  "0 < a \<Longrightarrow> random_delay (comments_page script) cfg (Some a) (Some b) s = (None, s)"
  by (simp add: random_delay_def sleep_def uniform_def py_random_def comments_page_defs)

lemma comments_click: "click_view_more_buttons (comments_page script) cfg s = (False, s)"
  by (simp add: click_view_more_buttons_def view_more_selectors_def comments_page_defs)

lemma comments_randint: "randint (comments_page script) 3 5 s = (3, s)"
  by (simp add: randint_def comments_page_defs)

lemma comments_uniform: "uniform (comments_page script) a b s = (a, s)"
  by (simp add: uniform_def py_random_def comments_page_defs)

lemma comments_sleep: "0 \<le> x \<Longrightarrow> sleep (comments_page script) x s = (None, s)"
  by (simp add: sleep_def comments_page_defs)

lemma comments_evaluate: "page_evaluate (comments_page script) = script"
  by (simp add: comments_page_defs)

lemma comments_open: "open_comment_section (comments_page script) cfg s = (False, s)"
  by (simp add: open_comment_section_def comment_button_selectors_def comments_page_defs)

lemma comments_replies: "expand_all_replies (comments_page script) cfg s = s"
  by (simp add: expand_all_replies_def reply_selectors_def backslash_def comments_page_defs)

lemma comments_see_more: "expand_see_more_in_comments (comments_page script) cfg s = s"
  by (simp add: expand_see_more_in_comments_def see_more_selectors_def comments_page_defs)

lemma comments_info: "extract_post_info (comments_page script) s = no_post"
  by (simp add: extract_post_info_def post_author_selectors_def content_selectors_def
      limit_content_length_def no_post_def comments_page_defs)

lemma comments_elements:
  "comment_elements_from (comments_page script) comment_selectors s =
     Inr (if 3 \<le> s then [0, 1, 2] else [])"
  by (simp add: comment_selectors_def comments_page_defs)

lemma comment_ids:
  "str_of_nat 0 = py ''0''" "str_of_nat 1 = py ''1''" "str_of_nat 2 = py ''2''"
  by (simp_all add: str_of_nat.simps py_def)

lemma comments_each:
  "extract_each (comments_page script) [0, 1, 2] 0 no_post s = scenario_A_records"
proof -
  have "str_of_nat (Suc 0) = py ''1''" using comment_ids(2) by simp
  then show ?thesis
    using comment_ids(1,3)
    by (simp add: comments_page_0 comments_page_1 comments_page_2 numeral_2_eq_2 [symmetric]
        plain_record_def py_def scenario_A_records_def)
qed



lemma post_increments:
  "0 \<le> pause \<Longrightarrow> scroll_increments post_page n amount pause s = (None, s + n)"
  unfolding post_page_def
  by (induction n arbitrary: s)
     (simp_all add: comments_evaluate steady_script_def comments_uniform comments_sleep)

lemma post_scroll:
  "0 \<le> SCROLL_PAUSE_TIME cfg \<Longrightarrow> human_like_scroll post_page cfg amount s = (None, s + 3)"
  using post_increments [of "real_of_int (SCROLL_PAUSE_TIME cfg) / 2 / 3" 3]
  by (simp add: human_like_scroll_def comments_randint [of steady_script, folded post_page_def])

lemma post_round: "scroll_round post_page default_config s = (None, False, s + 3)"
  by (simp add: scroll_round_def post_scroll default_pause
      comments_delay [of _ steady_script, folded post_page_def]
      comments_click [of steady_script, folded post_page_def])

lemma post_loop: "scroll_loop post_page default_config None 0 0 = (None, 6, 18)"
  by (simp add: scroll_loop_round default_max_scrolls post_round target_reached_None)

lemma post_expand: "expand_all_comments post_page default_config None 0 = 18"
  by (simp add: expand_all_comments_loop post_loop
      comments_open [of steady_script, folded post_page_def]
      comments_delay [of _ steady_script, folded post_page_def]
      comments_replies [of steady_script, folded post_page_def]
      comments_see_more [of steady_script, folded post_page_def])









section \<open>The feed whose scroll raises\<close>

lemmas raising_feed_defs = raising_feed_def feed_page_def synthetic_env_def first_of_def

lemma raising_goto: "page_goto raising_feed url timeout s = (None, s)"
  by (simp add: raising_feed_defs)

lemma raising_open: "open_comment_section raising_feed cfg s = (False, s)"
  by (simp add: open_comment_section_def comment_button_selectors_def raising_feed_defs)

lemma raising_expand: "expand_all_comments raising_feed default_config None 0 = 4"
  by (simp add: expand_all_comments_loop raising_open raising_delay raising_loop
      target_reached_None)

lemma raising_elements:
  "comment_elements_from raising_feed comment_selectors 4 = Inr [0, 1]"
  by (simp add: comment_selectors_def raising_feed_defs upt_rec)

lemma raising_single: "extract_single_comment raising_feed element info s = None"
  by (simp add: comment_defs raising_feed_defs noise_strings_def delete_all.simps)

lemma raising_each: "extract_each raising_feed elements idx info s = []"
  by (induction elements arbitrary: idx) (simp_all add: raising_single)

text \<open>
  C10. \<^verbatim>\<open>crawl_post_comments\<close> with \<^verbatim>\<open>max_comments = 0\<close>.
  \<^item> The target test is false on every page, as it is for \<^verbatim>\<open>None\<close>, and the scroll loop,
    the expansion and the crawl of the post are what they are without a cap.
  \<^item> With a positive budget the scroll loop runs rounds \<open>1, \<dots>, k\<close>, where \<open>k\<close> is the
    first round whose scroll or wait raises, or after which no load-more button was
    clicked and more than 5 rounds are done, or which uses up the budget; the comment
    count plays no part.
  \<^item> The expansion runs that loop after opening the comment section and, unless the loop
    ended by an exception, expands replies and truncated texts on the page the loop left.
  \<^item> If the navigation raises, the crawl returns the empty list. If it returns, the crawl
    returns the records of all the nodes that discovery finds on the page after the
    expansion, each one passed to the field extractor, and no record is cut off: there
    are as many records as there are nodes for which the field extractor gives one.
    A discovery query that raises gives the empty list.
\<close>

theorem zero_cap_is_no_cap:
  "target_reached env (Some 0) s = False \<and>
   scroll_loop env cfg (Some 0) 0 s = scroll_loop env cfg None 0 s \<and>
   expand_all_comments env cfg (Some 0) s = expand_all_comments env cfg None s \<and>
   crawl_post_comments env cfg url (Some 0) s = crawl_post_comments env cfg url None s \<and>
   (0 < MAX_SCROLL_ATTEMPTS cfg \<longrightarrow>
      scroll_loop env cfg (Some 0) 0 s =
        (let k = (LEAST k. 0 < k \<and>
                    (raises_in env cfg s k \<or> (\<not> clicked_in env cfg s k \<and> 5 < k) \<or>
                     MAX_SCROLL_ATTEMPTS cfg \<le> int k)) in
           (fst (scroll_round env cfg (page_after env cfg (k - 1) s)),
            (if raises_in env cfg s k then int k - 1 else int k),
            page_after env cfg k s))) \<and>
   expand_all_comments env cfg (Some 0) s =
     (let s1 = snd (open_comment_section env cfg s);
          s2 = snd (random_delay env cfg (Some 1) (Some 2) s1)
      in case scroll_loop env cfg (Some 0) 0 s2 of
           (Some e, n, s3) \<Rightarrow> s3
         | (None, n, s3) \<Rightarrow> expand_see_more_in_comments env cfg (expand_all_replies env cfg s3)) \<and>
   (page_goto env url (REQUEST_TIMEOUT cfg) s = (Some e, s1) \<longrightarrow>
      crawl_post_comments env cfg url (Some 0) s = (Inr [], s1)) \<and>
   (page_goto env url (REQUEST_TIMEOUT cfg) s = (None, s1) \<longrightarrow>
      crawl_post_comments env cfg url (Some 0) s =
        (let s2 = snd (random_delay env cfg (Some 3) (Some 5) s1);
             s3 = expand_all_comments env cfg (Some 0) s2;
             s4 = snd (random_delay env cfg (Some 1) (Some 2) s3)
         in case comment_elements_from env comment_selectors s4 of
              Inl e \<Rightarrow> (Inr [], s4)
            | Inr elements \<Rightarrow>
                (Inr (extract_each env elements 0 (extract_post_info env s2) s4), s4))) \<and>
   length (extract_each env elements idx info s) =
     length (filter (\<lambda>element. extract_single_comment env element info s \<noteq> None) elements)"
proof (intro conjI impI)
  show "target_reached env (Some 0) s = False" by (rule target_reached_zero)
  show "scroll_loop env cfg (Some 0) 0 s = scroll_loop env cfg None 0 s"
    by (rule scroll_loop_zero_cap)
  show "expand_all_comments env cfg (Some 0) s = expand_all_comments env cfg None s"
    by (rule expand_all_comments_zero_cap)
  show "crawl_post_comments env cfg url (Some 0) s = crawl_post_comments env cfg url None s"
    by (rule crawl_post_comments_zero_cap)
  show "expand_all_comments env cfg (Some 0) s =
     (let s1 = snd (open_comment_section env cfg s);
          s2 = snd (random_delay env cfg (Some 1) (Some 2) s1)
      in case scroll_loop env cfg (Some 0) 0 s2 of
           (Some e, n, s3) \<Rightarrow> s3
         | (None, n, s3) \<Rightarrow> expand_see_more_in_comments env cfg (expand_all_replies env cfg s3))"
    by (rule expand_all_comments_loop)
  show "length (extract_each env elements idx info s) =
     length (filter (\<lambda>element. extract_single_comment env element info s \<noteq> None) elements)"
    by (rule extract_each_length)
next
  assume "0 < MAX_SCROLL_ATTEMPTS cfg"
  then have "scroll_loop env cfg (Some 0) 0 s =
        (let k = (LEAST k. 0 < k \<and> ends_at env cfg (Some 0) s k) in
           (fst (scroll_round env cfg (page_after env cfg (k - 1) s)),
            (if raises_in env cfg s k then int k - 1 else int k),
            page_after env cfg k s))"
    by (rule scroll_loop_first_end)
  then show "scroll_loop env cfg (Some 0) 0 s =
        (let k = (LEAST k. 0 < k \<and>
                    (raises_in env cfg s k \<or> (\<not> clicked_in env cfg s k \<and> 5 < k) \<or>
                     MAX_SCROLL_ATTEMPTS cfg \<le> int k)) in
           (fst (scroll_round env cfg (page_after env cfg (k - 1) s)),
            (if raises_in env cfg s k then int k - 1 else int k),
            page_after env cfg k s))"
    by (simp only: ends_at_zero_cap)
next
  assume "page_goto env url (REQUEST_TIMEOUT cfg) s = (Some e, s1)"
  then show "crawl_post_comments env cfg url (Some 0) s = (Inr [], s1)"
    by (rule crawl_post_comments_goto_raises)
next
  assume "page_goto env url (REQUEST_TIMEOUT cfg) s = (None, s1)"
  then show "crawl_post_comments env cfg url (Some 0) s =
        (let s2 = snd (random_delay env cfg (Some 3) (Some 5) s1);
             s3 = expand_all_comments env cfg (Some 0) s2;
             s4 = snd (random_delay env cfg (Some 1) (Some 2) s3)
         in case comment_elements_from env comment_selectors s4 of
              Inl e \<Rightarrow> (Inr [], s4)
            | Inr elements \<Rightarrow>
                (Inr (extract_each env elements 0 (extract_post_info env s2) s4), s4))"
    by (rule crawl_post_comments_reached)
qed

text \<open>
  The synthetic post of scenario A, crawled with a cap of 0 under the default
  configuration: the loop runs its six rounds and the three comments are returned.
\<close>

theorem zero_cap_is_no_cap_witness:
  "page_goto post_page (py ''good'') (REQUEST_TIMEOUT default_config) 0 = (None, 0) \<and>
   expand_all_comments post_page default_config (Some 0) 0 = 18 \<and>
   crawl_post_comments post_page default_config (py ''good'') (Some 0) 0 =
     (Inr [plain_record (py ''Alice'') (py ''/user/alice'') (py ''Great photo'')
             (Some (py ''comment_0'')),
           plain_record (py ''Unknown User'') [] (py ''Nice post!!'') (Some (py ''comment_1'')),
           plain_record (py ''Bob'') (py ''/user/bob'') (py ''Thanks a lot'')
             (Some (py ''comment_2''))], 18)"
proof -
  have g: "page_goto post_page (py ''good'') (REQUEST_TIMEOUT default_config) 0 = (None, 0)"
    by (simp add: post_page_def comments_goto py_def)
  have e: "expand_all_comments post_page default_config (Some 0) 0 = 18"
    by (simp only: expand_all_comments_zero_cap post_expand)
  have "crawl_post_comments post_page default_config (py ''good'') (Some 0) 0 =
        (let s2 = snd (random_delay post_page default_config (Some 3) (Some 5) 0);
             s3 = expand_all_comments post_page default_config (Some 0) s2;
             s4 = snd (random_delay post_page default_config (Some 1) (Some 2) s3)
         in case comment_elements_from post_page comment_selectors s4 of
              Inl e \<Rightarrow> (Inr [], s4)
            | Inr elements \<Rightarrow>
                (Inr (extract_each post_page elements 0 (extract_post_info post_page s2) s4),
                 s4))"
    using g
    by (rule mp [OF zero_cap_is_no_cap [THEN conjunct2, THEN conjunct2, THEN conjunct2,
          THEN conjunct2, THEN conjunct2, THEN conjunct2, THEN conjunct2, THEN conjunct1],
          rotated])
  then have "crawl_post_comments post_page default_config (py ''good'') (Some 0) 0 =
      (Inr (extract_each post_page [0, 1, 2] 0 no_post 18), 18)"
    by (simp add: e comments_delay [of _ steady_script, folded post_page_def]
        comments_elements [of steady_script, folded post_page_def]
        comments_info [of steady_script, folded post_page_def])
  then show ?thesis
    using g e
    by (simp only: comments_each [of steady_script, folded post_page_def]
        scenario_A_records_def simp_thms)
qed

text \<open>
  The feed whose scroll script raises from its fourth call on, crawled with a cap of 0 and
  the default budget of 10: the second scroll raises and ends the loop after one round,
  although a load-more test needs more than 5 rounds and the budget is not used up; the
  crawl goes on with the discovery on the page as it is.
\<close>

theorem zero_cap_loop_ends_by_exception:
  "scroll_loop raising_feed default_config (Some 0) 0 0 = (Some PlaywrightError, 1, 4) \<and>
   \<not> stops_at raising_feed default_config (Some 0) 0 1 \<and>
   \<not> stops_at raising_feed default_config (Some 0) 0 2 \<and>
   expand_all_comments raising_feed default_config (Some 0) 0 = 4 \<and>
   crawl_post_comments raising_feed default_config (py ''good'') (Some 0) 0 = (Inr [], 4)"
proof -
  have e: "expand_all_comments raising_feed default_config (Some 0) 0 = 4"
    by (simp only: expand_all_comments_zero_cap raising_expand)
  have "crawl_post_comments raising_feed default_config (py ''good'') (Some 0) 0 = (Inr [], 4)"
    by (simp add: crawl_post_comments_reached [OF raising_goto] raising_delay e raising_elements
        raising_each del: extract_each.simps)
  moreover have "clicked_in raising_feed default_config 0 k = False" if "k = 1 \<or> k = 2" for k
    using that by (auto simp: clicked_in_def raising_round_1 raising_round_2)
  ultimately show ?thesis
    using e by (simp add: raising_loop stops_at_def target_reached_zero default_max_scrolls)
qed


section \<open>Failures of a post\<close>










section \<open>The post's own data\<close>

lemma post_author_from_content:
  "post_content (snd (post_author_from env selectors info s)) = post_content info"
  by (induction selectors arbitrary: info)
     (auto split: sum.splits option.splits)

lemma post_content_each_raises:
  "post_content_each env elements info s = (Some e, info1) \<Longrightarrow> info1 = info"
  by (induction elements) (auto split: sum.splits if_splits)

lemma post_content_each_empty:
  "post_content_each env elements info s = (None, info1) \<Longrightarrow> post_content info1 = [] \<Longrightarrow>
     info1 = info"
  by (induction elements) (auto split: sum.splits if_splits)

lemma post_content_from_raises:
  "post_content_from env selectors info s = (Some e, info1) \<Longrightarrow> info1 = info"
proof (induction selectors)
  case Nil
  then show ?case by simp
next
  case (Cons selector selectors)
  show ?case
  proof (cases "page_query_selector_all env selector s")
    case (Inl a)
    then show ?thesis using Cons.prems by simp
  next
    case (Inr elements)
    obtain x info2 where r: "post_content_each env elements info s = (x, info2)"
      by (cases "post_content_each env elements info s")
    show ?thesis
    proof (cases x)
      case None
      show ?thesis
      proof (cases "post_content info2 = []")
        case True
        have "post_content_each env elements info s = (None, info2)" using r None by simp
        then have "info2 = info" using True by (rule post_content_each_empty)
        then show ?thesis using Cons.IH Cons.prems Inr r None True by simp
      next
        case False
        then show ?thesis using Cons.prems Inr r None by simp
      qed
    next
      case (Some a)
      have "post_content_each env elements info s = (Some a, info2)" using r Some by simp
      then have "info2 = info" by (rule post_content_each_raises)
      then show ?thesis using Cons.prems Inr r Some by simp
    qed
  qed
qed

lemma extract_post_info_content:
  "post_content (extract_post_info env s) =
     (if length (extracted_content env s) > 500
      then take 500 (extracted_content env s) @ py ''...''
      else extracted_content env s)"
proof -
  obtain x info1 where a: "post_author_from env post_author_selectors (initial_info env s) s =
      (x, info1)"
    by (cases "post_author_from env post_author_selectors (initial_info env s) s")
  have c1: "post_content info1 = []"
    using post_author_from_content [of env post_author_selectors "initial_info env s" s] a
    by (simp add: initial_info_def)
  obtain y info2 where c: "post_content_from env content_selectors info1 s = (y, info2)"
    by (cases "post_content_from env content_selectors info1 s")
  show ?thesis
  proof (cases x)
    case (Some e)
    then show ?thesis
      using a c1 by (simp add: extract_post_info_def extracted_content_def initial_info_def)
  next
    case None
    show ?thesis
    proof (cases y)
      case (Some e)
      have "post_content_from env content_selectors info1 s = (Some e, info2)"
        using c Some by simp
      then have "info2 = info1" by (rule post_content_from_raises)
      then show ?thesis
        using a c c1 None Some
        by (simp add: extract_post_info_def extracted_content_def initial_info_def)
    next
      case n: None
      then show ?thesis
        using a c None
        by (simp add: extract_post_info_def extracted_content_def initial_info_def
            limit_content_length_def)
    qed
  qed
qed

lemma py_dots: "length (py ''...'') = 3"
  by (simp add: py_def)

lemma strip_letters: "strip (replicate n 120) = replicate n 120"
  by (rule strip_id) (cases n, simp_all add: isspace_def last_replicate)

lemma long_post_content: "0 < n \<Longrightarrow> extracted_content (long_post n) s = replicate n 120"
  by (simp add: extracted_content_def initial_info_def post_author_selectors_def
      content_selectors_def long_post_def synthetic_env_def first_of_def strip_letters)

text \<open>
  C8. The content in the result of \<^verbatim>\<open>_extract_post_info\<close> is the extracted content, cut
  to its first 500 characters followed by \<^verbatim>\<open>...\<close> if it has more than 500. So an
  extracted content of 600 characters gives 503 characters, the first 500 and the three
  dots, and one of 400 characters is returned as it is. The same holds of the length
  limit taken alone, for any dictionary.
\<close>

theorem content_is_truncated:
  "post_content (extract_post_info env s) =
     (if length (extracted_content env s) > 500
      then take 500 (extracted_content env s) @ py ''...''
      else extracted_content env s) \<and>
   (length (extracted_content env s) = 600 \<longrightarrow>
      post_content (extract_post_info env s) = take 500 (extracted_content env s) @ py ''...'' \<and>
      length (post_content (extract_post_info env s)) = 503) \<and>
   (length (extracted_content env s) = 400 \<longrightarrow>
      post_content (extract_post_info env s) = extracted_content env s) \<and>
   (length (post_content info) = 600 \<longrightarrow>
      post_content (limit_content_length info) = take 500 (post_content info) @ py ''...'' \<and>
      length (post_content (limit_content_length info)) = 503) \<and>
   (length (post_content info) = 400 \<longrightarrow> limit_content_length info = info)"
  by (simp add: extract_post_info_content limit_content_length_def py_dots)

text \<open>The posts whose message is 600 and 400 letters long.\<close>

theorem content_is_truncated_witness:
  "length (extracted_content (long_post 600) 0) = 600 \<and>
   post_content (extract_post_info (long_post 600) 0) = replicate 500 120 @ py ''...'' \<and>
   length (post_content (extract_post_info (long_post 600) 0)) = 503 \<and>
   length (extracted_content (long_post 400) 0) = 400 \<and>
   post_content (extract_post_info (long_post 400) 0) = replicate 400 120"
proof -
  have a: "extracted_content (long_post 600) 0 = replicate 600 120"
    by (rule long_post_content) simp
  have b: "extracted_content (long_post 400) 0 = replicate 400 120"
    by (rule long_post_content) simp
  have "length (extracted_content (long_post 600) 0) = 600" by (simp only: a length_replicate)
  then have "post_content (extract_post_info (long_post 600) 0) =
        take 500 (extracted_content (long_post 600) 0) @ py ''...'' \<and>
      length (post_content (extract_post_info (long_post 600) 0)) = 503"
    by (rule mp [OF content_is_truncated [THEN conjunct2, THEN conjunct1], rotated])
  moreover have "length (extracted_content (long_post 400) 0) = 400"
    by (simp only: b length_replicate)
  then have "post_content (extract_post_info (long_post 400) 0) =
      extracted_content (long_post 400) 0"
    by (rule mp [OF content_is_truncated [THEN conjunct2, THEN conjunct2, THEN conjunct1],
          rotated])
  ultimately show ?thesis by (simp add: a b py_dots)
qed

text \<open>
  C3. On the post whose message selector matches an element with the text \<^verbatim>\<open>Hi\<close> and
  then one with the text \<^verbatim>\<open>Hello world\<close>, the content that \<^verbatim>\<open>_extract_post_info\<close>
  extracts is \<^verbatim>\<open>Hi\<close>, the first non-empty text and not the longest: the \<^verbatim>\<open>break\<close>
  after the assignment leaves the loop over the elements before the second one is read.
\<close>

theorem first_text_is_kept:
  "page_query_selector_all two_texts_post (hd content_selectors) 0 = Inr [0, 1] \<and>
   text_content two_texts_post 0 0 = Inr (py ''Hi'') \<and>
   text_content two_texts_post 1 0 = Inr (py ''Hello world'') \<and>
   extracted_content two_texts_post 0 = py ''Hi'' \<and>
   post_content (extract_post_info two_texts_post 0) = py ''Hi'' \<and>
   length (py ''Hi'') < length (py ''Hello world'')"
proof -
  have e: "extracted_content two_texts_post 0 = py ''Hi''"
    by (simp add: extracted_content_def initial_info_def post_author_selectors_def
        content_selectors_def two_texts_post_def synthetic_env_def first_of_def py_def
        strip_def isspace_def)
  have "post_content (extract_post_info two_texts_post 0) = py ''Hi''"
    by (simp add: extract_post_info_content e py_def)
  then show ?thesis
    using e by (simp add: content_selectors_def two_texts_post_def synthetic_env_def py_def)
qed

section \<open>Discovery\<close>

lemma comment_elements_first:
  assumes "\<forall>x\<in>set before. page_query_selector_all env x s = Inr []"
  shows "comment_elements_from env (before @ selector # after) s =
     (case page_query_selector_all env selector s of
        Inl e \<Rightarrow> Inl e
      | Inr elements \<Rightarrow>
          if elements \<noteq> [] then Inr elements else comment_elements_from env after s)"
  using assms by (induction before) simp_all

lemma comment_elements_none:
  assumes "\<forall>x\<in>set selectors. page_query_selector_all env x s = Inr []"
  shows "comment_elements_from env selectors s = Inr []"
  using assms by (induction selectors) simp_all

text \<open>
  C5. Discovery tries the four selectors in their order. If the selectors before one
  return no match and that one returns matches, the candidates are exactly its matches, in
  their order, whatever the later selectors would return. If all return no match, there
  are no candidates. If the query of a selector raises before any selector has returned
  matches, discovery ends with that exception, later selectors are not tried, and
  \<^verbatim>\<open>_extract_comments\<close> returns the empty list. \<^verbatim>\<open>_extract_comments\<close> returns the records
  of the candidates, in their order.
\<close>

theorem discovery_takes_first_match:
  "(comment_selectors = before @ selector # after \<and>
    (\<forall>x\<in>set before. page_query_selector_all env x s = Inr []) \<longrightarrow>
      (page_query_selector_all env selector s = Inr elements \<and> elements \<noteq> [] \<longrightarrow>
         comment_elements_from env comment_selectors s = Inr elements) \<and>
      (page_query_selector_all env selector s = Inl e \<longrightarrow>
         comment_elements_from env comment_selectors s = Inl e)) \<and>
   ((\<forall>x\<in>set comment_selectors. page_query_selector_all env x s = Inr []) \<longrightarrow>
      comment_elements_from env comment_selectors s = Inr []) \<and>
   fst (extract_comments env cfg info s) =
     (let s1 = snd (random_delay env cfg (Some 1) (Some 2) s)
      in case comment_elements_from env comment_selectors s1 of
           Inl e \<Rightarrow> []
         | Inr elements \<Rightarrow> extract_each env elements 0 info s1)"
proof (intro conjI impI)
  assume a: "comment_selectors = before @ selector # after \<and>
    (\<forall>x\<in>set before. page_query_selector_all env x s = Inr [])"
  assume "page_query_selector_all env selector s = Inr elements \<and> elements \<noteq> []"
  then show "comment_elements_from env comment_selectors s = Inr elements"
    using a comment_elements_first [of before env s selector after] by simp
next
  assume a: "comment_selectors = before @ selector # after \<and>
    (\<forall>x\<in>set before. page_query_selector_all env x s = Inr [])"
  assume "page_query_selector_all env selector s = Inl e"
  then show "comment_elements_from env comment_selectors s = Inl e"
    using a comment_elements_first [of before env s selector after] by simp
next
  assume "\<forall>x\<in>set comment_selectors. page_query_selector_all env x s = Inr []"
  then show "comment_elements_from env comment_selectors s = Inr []"
    by (rule comment_elements_none)
next
  show "fst (extract_comments env cfg info s) =
     (let s1 = snd (random_delay env cfg (Some 1) (Some 2) s)
      in case comment_elements_from env comment_selectors s1 of
           Inl e \<Rightarrow> []
         | Inr elements \<Rightarrow> extract_each env elements 0 info s1)"
    by (simp add: extract_comments_elements Let_def split: sum.splits)
qed

text \<open>
  On the page where the third selector matches two elements and the fourth three, the
  candidates are the two of the third.
\<close>

theorem discovery_takes_first_match_witness:
  "comment_selectors =
     take 2 comment_selectors @ comment_selectors ! 2 # drop 3 comment_selectors \<and>
   page_query_selector_all fallback_page (comment_selectors ! 0) 0 = Inr [] \<and>
   page_query_selector_all fallback_page (comment_selectors ! 1) 0 = Inr [] \<and>
   page_query_selector_all fallback_page (comment_selectors ! 2) 0 = Inr [5, 6] \<and>
   page_query_selector_all fallback_page (comment_selectors ! 3) 0 = Inr [7, 8, 9] \<and>
   comment_elements_from fallback_page comment_selectors 0 = Inr [5, 6]"
proof -
  have q: "page_query_selector_all fallback_page (comment_selectors ! 0) 0 = Inr []"
    "page_query_selector_all fallback_page (comment_selectors ! 1) 0 = Inr []"
    "page_query_selector_all fallback_page (comment_selectors ! 2) 0 = Inr [5, 6]"
    "page_query_selector_all fallback_page (comment_selectors ! 3) 0 = Inr [7, 8, 9]"
    by (simp_all add: comment_selectors_def fallback_page_def synthetic_env_def)
  have c: "comment_selectors =
      take 2 comment_selectors @ comment_selectors ! 2 # drop 3 comment_selectors"
    by (simp add: comment_selectors_def)
  have b: "\<forall>x\<in>set (take 2 comment_selectors).
      page_query_selector_all fallback_page x 0 = Inr []"
    by (simp add: comment_selectors_def fallback_page_def synthetic_env_def)
  have "comment_elements_from fallback_page comment_selectors 0 = Inr [5, 6]"
    using discovery_takes_first_match [of "take 2 comment_selectors" "comment_selectors ! 2"
        "drop 3 comment_selectors" fallback_page 0 "[5, 6]"] c b q(3)
    by simp
  then show ?thesis using q c by simp
qed

text \<open>
  On the page where the query of the first selector raises and the second selector matches
  two elements, the second selector is the first that has matches, but discovery ends
  with the exception and no comment is returned.
\<close>

theorem discovery_stops_at_exception:
  "page_query_selector_all broken_query_page (comment_selectors ! 0) 0 = Inl PlaywrightError \<and>
   page_query_selector_all broken_query_page (comment_selectors ! 1) 0 = Inr [1, 2] \<and>
   comment_elements_from broken_query_page comment_selectors 0 = Inl PlaywrightError \<and>
   fst (extract_comments broken_query_page default_config no_post 0) = []"
  by (simp add: extract_comments_elements random_delay_def sleep_def uniform_def py_random_def
      comment_selectors_def broken_query_page_def synthetic_env_def)

end
